theory Spec2Isabelle
  imports Main "HOL-Library.Word"
begin

section \<open>Organization lifecycle handlers of \<^verbatim>\<open>app/routes/orgs.py\<close>\<close>

text \<open>
  The module has four request handlers, \<^verbatim>\<open>create_org\<close>, \<^verbatim>\<open>get_org\<close>,
  \<^verbatim>\<open>update_org\<close> and \<^verbatim>\<open>delete_org\<close>. Each one reads and writes two fixed
  collections of the document store (\<^verbatim>\<open>organizations\<close>, \<^verbatim>\<open>admins\<close>) and
  the namespace of per-tenant collections. The handlers are embedded as functions that
  take the store and return the outcome (an error or the response) together with the
  store as the handler leaves it, also when it raises half-way.
\<close>

subsection \<open>Strings and name normalization\<close>

text \<open>
  A Python \<^verbatim>\<open>str\<close> is a sequence of code points. The embedding covers the code
  points below 256, which is the range of \<^typ>\<open>char\<close>. On that range
  \<^verbatim>\<open>str.isspace\<close> holds of the twelve characters below, and \<^verbatim>\<open>str.lower\<close>
  works character by character: it moves \<^verbatim>\<open>A-Z\<close> and the upper-case letters of
  the Latin-1 block (\<^verbatim>\<open>0xC0-0xDE\<close> without the multiplication sign \<^verbatim>\<open>0xD7\<close>)
  up by 32 and leaves every other character alone.
\<close>

definition isspace :: "char \<Rightarrow> bool" where
  "isspace c = (of_char c \<in> {9, 10, 11, 12, 13, 28, 29, 30, 31, 32, 133, 160 :: nat})"

definition isupper :: "char \<Rightarrow> bool" where
  "isupper c = (let n = (of_char c :: nat) in
     (65 \<le> n \<and> n \<le> 90) \<or> (192 \<le> n \<and> n \<le> 222 \<and> n \<noteq> 215))"

definition lower_char :: "char \<Rightarrow> char" where
  "lower_char c = (if isupper c then char_of (of_char c + (32 :: nat)) else c)"

definition lower :: "string \<Rightarrow> string" where
  "lower s = map lower_char s"

text \<open>\<^verbatim>\<open>str.strip()\<close> without argument removes the leading and the trailing whitespace.\<close>

definition lstrip :: "string \<Rightarrow> string" where
  "lstrip s = dropWhile isspace s"

definition rstrip :: "string \<Rightarrow> string" where
  "rstrip s = rev (dropWhile isspace (rev s))"

definition strip :: "string \<Rightarrow> string" where
  "strip s = rstrip (lstrip s)"

text \<open>The expression \<^verbatim>\<open>name.strip().lower()\<close> that every handler applies to a name.\<close>

definition normalize_name :: "string \<Rightarrow> string" where
  "normalize_name name = lower (strip name)"

subsection \<open>Errors\<close>

text \<open>
  Every way a handler stops early is a value: the \<^verbatim>\<open>HTTPException\<close>s the module
  raises itself, with their status code and detail, and the two exceptions that the
  expressions of the module can raise on data of the wrong shape,
  \<^verbatim>\<open>AttributeError\<close> (a method called on \<^verbatim>\<open>None\<close>) and bson's
  \<^verbatim>\<open>InvalidId\<close>. \<^verbatim>\<open>TypeError\<close> stands for subscripting \<^verbatim>\<open>None\<close>.
  Failures of the store's own input and output are not part of the embedding: every
  command sent to the store takes effect.
\<close>

datatype error = HTTPException nat string | AttributeError | InvalidId | TypeError

subsection \<open>Object identifiers\<close>

text \<open>
  A bson \<^verbatim>\<open>ObjectId\<close> is a value of twelve bytes. \<^verbatim>\<open>str\<close> renders it as 24
  lower-case hexadecimal digits, and the constructor \<^verbatim>\<open>ObjectId(s)\<close> reads such a
  string back (digits of either case) and raises \<^verbatim>\<open>InvalidId\<close> on any other
  string.
\<close>

type_synonym ObjectId = "96 word"

definition hexdigits :: string where
  "hexdigits = ''0123456789abcdef''"

fun hex_of :: "nat \<Rightarrow> nat \<Rightarrow> string" where
  "hex_of 0 n = []"
| "hex_of (Suc k) n = hex_of k (n div 16) @ [hexdigits ! (n mod 16)]"

definition str_oid :: "ObjectId \<Rightarrow> string" where
  "str_oid w = hex_of 24 (unat w)"

definition hex_val :: "char \<Rightarrow> nat option" where
  "hex_val c = (let n = (of_char c :: nat) in
     if 48 \<le> n \<and> n \<le> 57 then Some (n - 48)
     else if 97 \<le> n \<and> n \<le> 102 then Some (n - 87)
     else if 65 \<le> n \<and> n \<le> 70 then Some (n - 55)
     else None)"

fun unhex :: "string \<Rightarrow> nat \<Rightarrow> nat option" where
  "unhex [] acc = Some acc"
| "unhex (c # cs) acc =
     (case hex_val c of None \<Rightarrow> None | Some d \<Rightarrow> unhex cs (16 * acc + d))"

definition ObjectId :: "string \<Rightarrow> error + ObjectId" where
  "ObjectId s =
     (if length s = 24
      then (case unhex s 0 of None \<Rightarrow> Inl InvalidId | Some n \<Rightarrow> Inr (word_of_nat n))
      else Inl InvalidId)"

subsection \<open>Documents, requests and the store\<close>

text \<open>
  The documents have the fields that \<^verbatim>\<open>create_org\<close> writes: the store's
  \<^verbatim>\<open>_id\<close> first, then the fields of \<^verbatim>\<open>org_doc\<close> and \<^verbatim>\<open>admin_doc\<close>.
  \<^verbatim>\<open>admin_id\<close> is stored as a string, \<^verbatim>\<open>created_at\<close> is a point in time,
  counted in some unit.
\<close>

record org_doc =
  org_oid :: ObjectId
  organization_name :: string
  collection_name :: string
  admin_id :: string
  created_at :: nat

record admin_doc =
  admin_oid :: ObjectId
  email :: string
  password :: string
  role :: string
  organization :: string

text \<open>
  Modelled from the spec: the request model \<^verbatim>\<open>OrgCreate\<close> of \<^verbatim>\<open>app.models\<close>,
  which is not in the module, carries the three required strings of the create request.
\<close>

record OrgCreate =
  create_organization_name :: string
  create_email :: string
  create_password :: string

text \<open>
  Modelled from the spec: the request model \<^verbatim>\<open>OrgUpdate\<close> of \<^verbatim>\<open>app.models\<close>,
  which is not in the module, carries the same three fields, each of them optional
  (``organization\_name (optional rename), email (optional), password (optional)'').
\<close>

record OrgUpdate =
  update_organization_name :: "string option"
  update_email :: "string option"
  update_password :: "string option"

text \<open>
  The dictionary that \<^verbatim>\<open>get_current_admin\<close> resolves the caller's token into,
  with its keys \<^verbatim>\<open>admin_id\<close> and \<^verbatim>\<open>org_id\<close>.
\<close>

record current_admin =
  caller_admin_id :: string
  caller_org_id :: string

text \<open>
  The responses: the dictionary \<^verbatim>\<open>create_org\<close> builds, and an organization
  document whose \<^verbatim>\<open>_id\<close> has been turned into a string, as \<^verbatim>\<open>get_org\<close> and
  \<^verbatim>\<open>update_org\<close> return it.
\<close>

record org_out =
  out_organization_name :: string
  out_collection_name :: string
  out_admin_id :: string

record org_json =
  json_id :: string
  json_organization_name :: string
  json_collection_name :: string
  json_admin_id :: string
  json_created_at :: nat

text \<open>
  The commands that reach the store, in the order in which they are sent. The journal
  is what makes the order of the side effects of a handler a property of its result.
\<close>

datatype command =
    CreateCollection string
  | DropCollection string
  | RenameAndSync string string
  | InsertAdmin admin_doc
  | InsertOrg org_doc
  | SetOrgName ObjectId string string
  | SetAdminOrganization ObjectId string
  | SetAdminEmail ObjectId string
  | SetAdminPassword ObjectId string
  | DeleteAdmin ObjectId
  | DeleteOrg string

text \<open>
  The namespace of tenant collections maps a collection name to its documents, which
  are opaque here. A collection of the store is the list of its documents in their
  natural order, which is the order \<^verbatim>\<open>find_one\<close> searches in.
\<close>

type_synonym tenant_db = "(string \<times> string list) list"

record state =
  organizations :: "org_doc list"
  admins :: "admin_doc list"
  tenants :: tenant_db
  journal :: "command list"

text \<open>
  The collaborators of \<^verbatim>\<open>app.utils\<close> and \<^verbatim>\<open>app.db\<close> are not in the module;
  the handlers take them as parameters. The three provisioning functions receive
  organization names and act on the tenant namespace only.
\<close>

record env =
  hash_password :: "string \<Rightarrow> string"
  create_org_collection :: "string \<Rightarrow> tenant_db \<Rightarrow> tenant_db"
  drop_org_collection :: "string \<Rightarrow> tenant_db \<Rightarrow> tenant_db"
  rename_and_sync_collection :: "string \<Rightarrow> string \<Rightarrow> tenant_db \<Rightarrow> tenant_db"

text \<open>
  What the run time supplies during one call of \<^verbatim>\<open>create_org\<close>: the two
  \<^verbatim>\<open>_id\<close>s that the driver generates for the inserted documents, and
  \<^verbatim>\<open>datetime.utcnow()\<close>.
\<close>

record generated =
  new_admin_oid :: ObjectId
  new_org_oid :: ObjectId
  utcnow :: nat

type_synonym 'a outcome = "(error + 'a) \<times> state"

subsection \<open>Store commands\<close>

text \<open>
  \<^verbatim>\<open>update_one\<close> and \<^verbatim>\<open>delete_one\<close> act on the first document that matches
  the filter and do nothing when none matches.
\<close>

fun update_first :: "('a \<Rightarrow> bool) \<Rightarrow> ('a \<Rightarrow> 'a) \<Rightarrow> 'a list \<Rightarrow> 'a list" where
  "update_first P f [] = []"
| "update_first P f (x # xs) = (if P x then f x # xs else x # update_first P f xs)"

fun delete_first :: "('a \<Rightarrow> bool) \<Rightarrow> 'a list \<Rightarrow> 'a list" where
  "delete_first P [] = []"
| "delete_first P (x # xs) = (if P x then xs else x # delete_first P xs)"

definition find_one_org :: "state \<Rightarrow> string \<Rightarrow> org_doc option" where
  "find_one_org s name = find (\<lambda>d. organization_name d = name) (organizations s)"

definition find_one_admin :: "state \<Rightarrow> ObjectId \<Rightarrow> admin_doc option" where
  "find_one_admin s i = find (\<lambda>a. admin_oid a = i) (admins s)"

definition call_create_org_collection :: "env \<Rightarrow> string \<Rightarrow> state \<Rightarrow> state" where
  "call_create_org_collection E name s =
     s\<lparr>tenants := create_org_collection E name (tenants s),
       journal := journal s @ [CreateCollection name]\<rparr>"

definition call_drop_org_collection :: "env \<Rightarrow> string \<Rightarrow> state \<Rightarrow> state" where
  "call_drop_org_collection E name s =
     s\<lparr>tenants := drop_org_collection E name (tenants s),
       journal := journal s @ [DropCollection name]\<rparr>"

definition call_rename_and_sync_collection :: "env \<Rightarrow> string \<Rightarrow> string \<Rightarrow> state \<Rightarrow> state" where
  "call_rename_and_sync_collection E old new s =
     s\<lparr>tenants := rename_and_sync_collection E old new (tenants s),
       journal := journal s @ [RenameAndSync old new]\<rparr>"

definition admins_insert_one :: "admin_doc \<Rightarrow> state \<Rightarrow> state" where
  "admins_insert_one doc s =
     s\<lparr>admins := admins s @ [doc], journal := journal s @ [InsertAdmin doc]\<rparr>"

definition organizations_insert_one :: "org_doc \<Rightarrow> state \<Rightarrow> state" where
  "organizations_insert_one doc s =
     s\<lparr>organizations := organizations s @ [doc], journal := journal s @ [InsertOrg doc]\<rparr>"

definition organizations_set_name :: "ObjectId \<Rightarrow> string \<Rightarrow> string \<Rightarrow> state \<Rightarrow> state" where
  "organizations_set_name i name coll s =
     s\<lparr>organizations :=
         update_first (\<lambda>d. org_oid d = i)
           (\<lambda>d. d\<lparr>organization_name := name, collection_name := coll\<rparr>) (organizations s),
       journal := journal s @ [SetOrgName i name coll]\<rparr>"

definition admins_set_organization :: "ObjectId \<Rightarrow> string \<Rightarrow> state \<Rightarrow> state" where
  "admins_set_organization i name s =
     s\<lparr>admins := update_first (\<lambda>a. admin_oid a = i) (\<lambda>a. a\<lparr>organization := name\<rparr>) (admins s),
       journal := journal s @ [SetAdminOrganization i name]\<rparr>"

definition admins_set_email :: "ObjectId \<Rightarrow> string \<Rightarrow> state \<Rightarrow> state" where
  "admins_set_email i e s =
     s\<lparr>admins := update_first (\<lambda>a. admin_oid a = i) (\<lambda>a. a\<lparr>email := e\<rparr>) (admins s),
       journal := journal s @ [SetAdminEmail i e]\<rparr>"

definition admins_set_password :: "ObjectId \<Rightarrow> string \<Rightarrow> state \<Rightarrow> state" where
  "admins_set_password i h s =
     s\<lparr>admins := update_first (\<lambda>a. admin_oid a = i) (\<lambda>a. a\<lparr>password := h\<rparr>) (admins s),
       journal := journal s @ [SetAdminPassword i h]\<rparr>"

definition admins_delete_one :: "ObjectId \<Rightarrow> state \<Rightarrow> state" where
  "admins_delete_one i s =
     s\<lparr>admins := delete_first (\<lambda>a. admin_oid a = i) (admins s),
       journal := journal s @ [DeleteAdmin i]\<rparr>"

definition organizations_delete_one :: "string \<Rightarrow> state \<Rightarrow> state" where
  "organizations_delete_one name s =
     s\<lparr>organizations := delete_first (\<lambda>d. organization_name d = name) (organizations s),
       journal := journal s @ [DeleteOrg name]\<rparr>"

subsection \<open>The handlers\<close>

text \<open>\<^verbatim>\<open>create_org\<close> (POST /org/create).\<close>

definition create_org :: "env \<Rightarrow> generated \<Rightarrow> OrgCreate \<Rightarrow> state \<Rightarrow> org_out outcome" where
  "create_org E g payload s =
     (let org_name = normalize_name (create_organization_name payload) in
      case find_one_org s org_name of
        Some existing \<Rightarrow> (Inl (HTTPException 400 ''Organization already exists''), s)
      | None \<Rightarrow>
          let coll_name = ''org_'' @ org_name;
              s1 = call_create_org_collection E org_name s;
              admin_doc = \<lparr>admin_oid = new_admin_oid g,
                           email = create_email payload,
                           password = hash_password E (create_password payload),
                           role = ''admin'',
                           organization = org_name\<rparr>;
              s2 = admins_insert_one admin_doc s1;
              org_doc = \<lparr>org_oid = new_org_oid g,
                         organization_name = org_name,
                         collection_name = coll_name,
                         admin_id = str_oid (new_admin_oid g),
                         created_at = utcnow g\<rparr>;
              s3 = organizations_insert_one org_doc s2
          in (Inr \<lparr>out_organization_name = org_name,
                    out_collection_name = coll_name,
                    out_admin_id = str_oid (new_admin_oid g)\<rparr>, s3))"

text \<open>
  An organization document as the handlers return it: \<^verbatim>\<open>_id\<close> turned into a
  string, \<^verbatim>\<open>admin_id\<close> passed through \<^verbatim>\<open>str\<close>, which leaves a string as it is.
\<close>

definition to_json :: "org_doc \<Rightarrow> org_json" where
  "to_json org =
     \<lparr>json_id = str_oid (org_oid org),
      json_organization_name = organization_name org,
      json_collection_name = collection_name org,
      json_admin_id = admin_id org,
      json_created_at = created_at org\<rparr>"

text \<open>\<^verbatim>\<open>get_org\<close> (GET /org/get) only reads the store.\<close>

definition get_org :: "string \<Rightarrow> state \<Rightarrow> error + org_json" where
  "get_org name s =
     (case find_one_org s (normalize_name name) of
        None \<Rightarrow> Inl (HTTPException 404 ''Organization not found'')
      | Some org \<Rightarrow> Inr (to_json org))"

text \<open>
  \<^verbatim>\<open>update_org\<close> (PUT /org/update), in the three parts its comments number. The
  rename part returns the name the response is looked up under. The handler's writes to
  its local \<^verbatim>\<open>org\<close> dictionary after the rename are never read again and have no
  counterpart here.
\<close>

definition handle_rename ::
    "env \<Rightarrow> current_admin \<Rightarrow> org_doc \<Rightarrow> string \<Rightarrow> state \<Rightarrow> string outcome" where
  "handle_rename E ca org new_org_name s =
     (let target_org_name = caller_org_id ca in
      if new_org_name \<noteq> target_org_name then
        (case find_one_org s new_org_name of
           Some existing \<Rightarrow>
             (Inl (HTTPException 400 ''New organization name already exists''), s)
         | None \<Rightarrow>
             let new_collection_name = ''org_'' @ new_org_name;
                 s1 = organizations_set_name (org_oid org) new_org_name new_collection_name s
             in (case ObjectId (caller_admin_id ca) of
                   Inl e \<Rightarrow> (Inl e, s1)
                 | Inr i \<Rightarrow>
                     let s2 = admins_set_organization i new_org_name s1;
                         s3 = call_rename_and_sync_collection E target_org_name new_org_name s2
                     in (Inr new_org_name, s3)))
      else (Inr target_org_name, s))"

text \<open>Python's truth value of an optional string: \<^verbatim>\<open>None\<close> and \<^verbatim>\<open>""\<close> are false.\<close>

fun truthy :: "string option \<Rightarrow> bool" where
  "truthy None = False"
| "truthy (Some v) = (v \<noteq> [])"

definition update_email_step :: "current_admin \<Rightarrow> OrgUpdate \<Rightarrow> state \<Rightarrow> unit outcome" where
  "update_email_step ca payload s =
     (case update_email payload of
        None \<Rightarrow> (Inr (), s)
      | Some e \<Rightarrow>
          if e \<noteq> [] then
            (case ObjectId (caller_admin_id ca) of
               Inl err \<Rightarrow> (Inl err, s)
             | Inr i \<Rightarrow> (Inr (), admins_set_email i e s))
          else (Inr (), s))"

definition update_password_step ::
    "env \<Rightarrow> current_admin \<Rightarrow> OrgUpdate \<Rightarrow> state \<Rightarrow> unit outcome" where
  "update_password_step E ca payload s =
     (case update_password payload of
        None \<Rightarrow> (Inr (), s)
      | Some pw \<Rightarrow>
          if pw \<noteq> [] then
            (case ObjectId (caller_admin_id ca) of
               Inl err \<Rightarrow> (Inl err, s)
             | Inr i \<Rightarrow> (Inr (), admins_set_password i (hash_password E pw) s))
          else (Inr (), s))"

definition handle_credentials ::
    "env \<Rightarrow> current_admin \<Rightarrow> OrgUpdate \<Rightarrow> state \<Rightarrow> unit outcome" where
  "handle_credentials E ca payload s =
     (if truthy (update_email payload) \<or> truthy (update_password payload) then
        (case update_email_step ca payload s of
           (Inl err, s1) \<Rightarrow> (Inl err, s1)
         | (Inr u, s1) \<Rightarrow> update_password_step E ca payload s1)
      else (Inr (), s))"

definition return_updated :: "string \<Rightarrow> state \<Rightarrow> org_json outcome" where
  "return_updated target_org_name s =
     (case find_one_org s target_org_name of
        None \<Rightarrow> (Inl TypeError, s)
      | Some updated_org \<Rightarrow> (Inr (to_json updated_org), s))"

definition update_org :: "env \<Rightarrow> OrgUpdate \<Rightarrow> current_admin \<Rightarrow> state \<Rightarrow> org_json outcome" where
  "update_org E payload ca s =
     (case find_one_org s (caller_org_id ca) of
        None \<Rightarrow> (Inl (HTTPException 404 ''Organization not found''), s)
      | Some org \<Rightarrow>
          (case update_organization_name payload of
             None \<Rightarrow> (Inl AttributeError, s)
           | Some name \<Rightarrow>
               (case handle_rename E ca org (normalize_name name) s of
                  (Inl err, s1) \<Rightarrow> (Inl err, s1)
                | (Inr target_org_name, s1) \<Rightarrow>
                    (case handle_credentials E ca payload s1 of
                       (Inl err, s2) \<Rightarrow> (Inl err, s2)
                     | (Inr u, s2) \<Rightarrow> return_updated target_org_name s2))))"

text \<open>\<^verbatim>\<open>delete_org\<close> (DELETE /org/delete); its response is the status it reports.\<close>

definition delete_org :: "env \<Rightarrow> string \<Rightarrow> current_admin \<Rightarrow> state \<Rightarrow> string outcome" where
  "delete_org E name ca s =
     (if caller_org_id ca \<noteq> normalize_name name then
        (Inl (HTTPException 403 ''You are not authorized to delete this organization''), s)
      else
        let org_name = normalize_name name in
        case find_one_org s org_name of
          None \<Rightarrow> (Inl (HTTPException 404 ''Organization not found''), s)
        | Some org \<Rightarrow>
            let s1 = call_drop_org_collection E org_name s in
            (case ObjectId (admin_id org) of
               Inl err \<Rightarrow> (Inl err, s1)
             | Inr i \<Rightarrow>
                 let s2 = admins_delete_one i s1;
                     s3 = organizations_delete_one org_name s2
                 in (Inr ''deleted'', s3)))"

subsection \<open>Properties of the store\<close>

text \<open>
  The data model's invariants, as predicates on the store: names and identifiers are
  unique, every name is stored in normalized form, every collection name is derived
  from its organization's name, and every organization's \<^verbatim>\<open>admin_id\<close> reads back
  as the identifier of an admin in the store, no two organizations sharing one.
\<close>

definition unique_names :: "state \<Rightarrow> bool" where
  "unique_names s = distinct (map organization_name (organizations s))"

definition unique_org_oids :: "state \<Rightarrow> bool" where
  "unique_org_oids s = distinct (map org_oid (organizations s))"

definition unique_admin_oids :: "state \<Rightarrow> bool" where
  "unique_admin_oids s = distinct (map admin_oid (admins s))"

definition normalized_names :: "state \<Rightarrow> bool" where
  "normalized_names s =
     list_all (\<lambda>d. normalize_name (organization_name d) = organization_name d) (organizations s)"

definition derived_naming :: "state \<Rightarrow> bool" where
  "derived_naming s =
     list_all (\<lambda>d. collection_name d = ''org_'' @ organization_name d) (organizations s)"

definition admin_refs :: "state \<Rightarrow> bool" where
  "admin_refs s =
     (distinct (map (\<lambda>d. ObjectId (admin_id d)) (organizations s)) \<and>
      list_all (\<lambda>d. case ObjectId (admin_id d) of
                       Inl err \<Rightarrow> False
                     | Inr i \<Rightarrow> i \<in> set (map admin_oid (admins s))) (organizations s))"

definition consistent :: "state \<Rightarrow> bool" where
  "consistent s =
     (unique_names s \<and> unique_org_oids s \<and> unique_admin_oids s \<and> normalized_names s \<and>
      derived_naming s \<and> admin_refs s)"

text \<open>The identifiers that the driver generates are new to the collection they go into.\<close>

definition fresh :: "generated \<Rightarrow> state \<Rightarrow> bool" where
  "fresh g s =
     (new_admin_oid g \<notin> set (map admin_oid (admins s)) \<and>
      new_org_oid g \<notin> set (map org_oid (organizations s)))"

definition empty_state :: state where
  "empty_state = \<lparr>organizations = [], admins = [], tenants = [], journal = []\<rparr>"

text \<open>The stores that sequences of handler calls lead to, starting from the empty one.\<close>

inductive reachable :: "env \<Rightarrow> state \<Rightarrow> bool" for E :: env where
  reachable_empty: "reachable E empty_state"
| reachable_create: "reachable E s \<Longrightarrow> fresh g s \<Longrightarrow> reachable E (snd (create_org E g payload s))"
| reachable_update: "reachable E s \<Longrightarrow> reachable E (snd (update_org E payload ca s))"
| reachable_delete: "reachable E s \<Longrightarrow> reachable E (snd (delete_org E name ca s))"

text \<open>
  The password values among the commands that a call has sent to the store: the
  commands of the journal \<open>s'\<close> beyond those of \<open>s\<close> that write a \<^verbatim>\<open>password\<close> field.
\<close>

fun password_written :: "command \<Rightarrow> string option" where
  "password_written (InsertAdmin doc) = Some (password doc)"
| "password_written (SetAdminPassword i h) = Some h"
| "password_written c = None"

definition passwords_written :: "state \<Rightarrow> state \<Rightarrow> string list" where
  "passwords_written s s' = List.map_filter password_written (drop (length (journal s)) (journal s'))"

text \<open>
  The fields of an admin document that a change of credentials leaves alone, and the
  \<^verbatim>\<open>email\<close> that the credential part of \<^verbatim>\<open>update_org\<close> leaves in a document.
\<close>

definition fixed_fields :: "admin_doc \<Rightarrow> ObjectId \<times> string \<times> string" where
  "fixed_fields a = (admin_oid a, role a, organization a)"

definition new_email :: "OrgUpdate \<Rightarrow> admin_doc \<Rightarrow> string" where
  "new_email pu a =
     (case update_email pu of None \<Rightarrow> email a | Some e \<Rightarrow> if e = [] then email a else e)"

text \<open>
  The strings that the two fixed collections hold: every string field of every
  organization document and of every admin document.
\<close>

definition org_strings :: "org_doc \<Rightarrow> string list" where
  "org_strings d = [organization_name d, collection_name d, admin_id d]"

definition admin_strings :: "admin_doc \<Rightarrow> string list" where
  "admin_strings a = [email a, password a, role a, organization a]"

definition stored_strings :: "state \<Rightarrow> string list" where
  "stored_strings s =
     concat (map org_strings (organizations s)) @ concat (map admin_strings (admins s))"

text \<open>
  Modelled from the spec: the contract of the Credential Store's
  \<^verbatim>\<open>hash(plaintext)\<close>, whose code in \<^verbatim>\<open>app.utils\<close> is not in the module. A
  password is ``stored as an irreversible hash, never plaintext'': the hash of a
  plaintext is not that plaintext.
\<close>

definition hash_contract :: "env \<Rightarrow> string \<Rightarrow> bool" where
  "hash_contract E plaintext = (hash_password E plaintext \<noteq> plaintext)"

subsection \<open>A concrete run\<close>

text \<open>
  Modelled from the spec: an instance of the collaborators, which are not in the module,
  to run the handlers with. The Collection Provisioner's \<^verbatim>\<open>create(name)\<close>,
  \<^verbatim>\<open>drop(name)\<close> and \<^verbatim>\<open>rename_and_sync(old_name, new_name)\<close> act on the
  collection named \<^verbatim>\<open>"org_" + name\<close>; the copy leaves the old collection in place.
  The hash is a stand-in that tags its argument. No theorem but those about the concrete
  run depends on this instance.
\<close>

definition spec_env :: env where
  "spec_env =
     \<lparr>hash_password = (\<lambda>p. ''hash:'' @ p),
      create_org_collection = (\<lambda>name t. t @ [(''org_'' @ name, [])]),
      drop_org_collection = (\<lambda>name t. filter (\<lambda>kv. fst kv \<noteq> ''org_'' @ name) t),
      rename_and_sync_collection = (\<lambda>old new t.
         t @ [(''org_'' @ new,
               (case map_of t (''org_'' @ old) of None \<Rightarrow> [] | Some docs \<Rightarrow> docs))])\<rparr>"

text \<open>
  The spec's lifecycle scenario: \<^verbatim>\<open>create("TestOrg", "a@x.com", "pw1")\<close>, then a
  second organization, and the caller that the first organization's admin logs in as.
\<close>

definition testorg :: OrgCreate where
  "testorg = \<lparr>create_organization_name = ''TestOrg'', create_email = ''a@x.com'',
              create_password = ''pw1''\<rparr>"

definition other_org :: OrgCreate where
  "other_org = \<lparr>create_organization_name = '' Other'', create_email = ''b@x.com'',
                create_password = ''pw2''\<rparr>"

definition gen1 :: generated where
  "gen1 = \<lparr>new_admin_oid = 1, new_org_oid = 2, utcnow = 100\<rparr>"

definition gen2 :: generated where
  "gen2 = \<lparr>new_admin_oid = 3, new_org_oid = 4, utcnow = 200\<rparr>"

definition state1 :: state where
  "state1 = snd (create_org spec_env gen1 testorg empty_state)"

definition state2 :: state where
  "state2 = snd (create_org spec_env gen2 other_org state1)"

definition caller1 :: current_admin where
  "caller1 = \<lparr>caller_admin_id = ''000000000000000000000001'', caller_org_id = ''testorg''\<rparr>"

definition rename_to :: "string \<Rightarrow> OrgUpdate" where
  "rename_to name =
     \<lparr>update_organization_name = Some name, update_email = None, update_password = None\<rparr>"

definition new_password :: "string \<Rightarrow> string \<Rightarrow> OrgUpdate" where
  "new_password name pw =
     \<lparr>update_organization_name = Some name, update_email = None, update_password = Some pw\<rparr>"

definition password_only :: "string \<Rightarrow> OrgUpdate" where
  "password_only pw =
     \<lparr>update_organization_name = None, update_email = None, update_password = Some pw\<rparr>"

section \<open>Verification\<close>

subsection \<open>Lists as collections\<close>

lemma map_update_first: "(\<And>x. g (f x) = g x) \<Longrightarrow> map g (update_first P f xs) = map g xs"
  by (induction xs) auto

lemma filter_update_first:
  "(\<And>x. P x \<Longrightarrow> \<not> Q x \<and> \<not> Q (f x)) \<Longrightarrow> filter Q (update_first P f xs) = filter Q xs"
  by (induction xs) auto

lemma list_all_update_first:
  "list_all Q xs \<Longrightarrow> (\<And>x. Q (f x)) \<Longrightarrow> list_all Q (update_first P f xs)"
  by (induction xs) auto

lemma find_update_first_same:
  "(\<And>x. P (f x) = P x) \<Longrightarrow> find P (update_first P f xs) = map_option f (find P xs)"
  by (induction xs) auto

lemma set_delete_first: "set (delete_first P xs) \<subseteq> set xs"
  by (induction xs) auto

lemma list_all_delete_first: "list_all Q xs \<Longrightarrow> list_all Q (delete_first P xs)"
  by (induction xs) auto

lemma distinct_map_delete_first: "distinct (map g xs) \<Longrightarrow> distinct (map g (delete_first P xs))"
  using set_delete_first[of P] by (induction xs) auto

lemma find_delete_first_key:
  "distinct (map g xs) \<Longrightarrow> find (\<lambda>x. g x = k) (delete_first (\<lambda>x. g x = k) xs) = None"
proof (induction xs)
  case Nil
  then show ?case by simp
next
  case (Cons a xs)
  show ?case
  proof (cases "g a = k")
    case True
    with Cons.prems have "k \<notin> g ` set xs" by auto
    then have "find (\<lambda>x. g x = k) xs = None" by (auto simp: find_None_iff)
    with True show ?thesis by simp
  next
    case False
    with Cons show ?thesis by simp
  qed
qed

subsection \<open>Normalization\<close>

lemma of_char_lower:
  "(of_char (lower_char c) :: nat) = (if isupper c then of_char c + 32 else of_char c)"
  unfolding lower_char_def isupper_def Let_def
  by (auto simp: of_char_of)

lemma isupper_lower: "\<not> isupper (lower_char c)"
  unfolding isupper_def[of "lower_char c"] Let_def of_char_lower
  by (auto simp: isupper_def Let_def)

lemma isspace_lower: "isspace (lower_char c) = isspace c"
  unfolding isspace_def[of "lower_char c"] of_char_lower
  by (auto simp: isupper_def Let_def isspace_def)

lemma lower_char_idem: "lower_char (lower_char c) = lower_char c"
  using isupper_lower[of c] by (simp add: lower_char_def[of "lower_char c"])

lemma lower_idem: "lower (lower s) = lower s"
  by (simp add: lower_def lower_char_idem)

lemma dropWhile_lower: "dropWhile isspace (lower s) = lower (dropWhile isspace s)"
  unfolding lower_def by (induction s) (auto simp: isspace_lower)

lemma lstrip_lower: "lstrip (lower s) = lower (lstrip s)"
  by (simp add: lstrip_def dropWhile_lower)

lemma rstrip_lower: "rstrip (lower s) = lower (rstrip s)"
  using dropWhile_lower[of "rev s"] by (simp add: rstrip_def lower_def rev_map)

lemma strip_lower: "strip (lower s) = lower (strip s)"
  by (simp add: strip_def lstrip_lower rstrip_lower)

lemma rstrip_idem: "rstrip (rstrip s) = rstrip s"
  by (simp add: rstrip_def)

lemma rstrip_Cons: "\<not> isspace x \<Longrightarrow> rstrip (x # xs) = x # rstrip xs"
  by (simp add: rstrip_def dropWhile_append)

lemma lstrip_rstrip: "lstrip (rstrip (lstrip s)) = rstrip (lstrip s)"
proof (cases "lstrip s")
  case Nil
  then show ?thesis by (simp add: rstrip_def) (simp add: lstrip_def)
next
  case (Cons x xs)
  then have "\<not> isspace x"
    unfolding lstrip_def by (metis hd_dropWhile list.sel(1) list.distinct(1))
  then have "lstrip (rstrip (x # xs)) = rstrip (x # xs)"
    by (simp add: rstrip_Cons lstrip_def)
  with Cons show ?thesis by simp
qed

lemma strip_idem: "strip (strip s) = strip s"
  by (simp add: strip_def lstrip_rstrip rstrip_idem)

lemma normalize_name_idem: "normalize_name (normalize_name s) = normalize_name s"
  by (simp add: normalize_name_def strip_lower strip_idem lower_idem)

lemma normalize_examples:
  "normalize_name ''  Acme '' = ''acme''" "normalize_name ''ACME'' = ''acme''"
  "normalize_name ''acme'' = ''acme''"
  by code_simp+

subsection \<open>Object identifiers read back\<close>

lemma hex_val_digit: "d < 16 \<Longrightarrow> hex_val (hexdigits ! d) = Some d"
proof -
  assume "d < 16"
  then have "d = 0 \<or> d = 1 \<or> d = 2 \<or> d = 3 \<or> d = 4 \<or> d = 5 \<or> d = 6 \<or> d = 7
      \<or> d = 8 \<or> d = 9 \<or> d = 10 \<or> d = 11 \<or> d = 12 \<or> d = 13 \<or> d = 14 \<or> d = 15"
    by arith
  then show ?thesis
    by (auto simp: hexdigits_def hex_val_def Let_def)
qed

lemma unhex_snoc:
  "unhex (xs @ [c]) acc =
     (case unhex xs acc of
        None \<Rightarrow> None
      | Some a \<Rightarrow> (case hex_val c of None \<Rightarrow> None | Some d \<Rightarrow> Some (16 * a + d)))"
  by (induction xs arbitrary: acc) (auto split: option.splits)

lemma unhex_hex_of: "unhex (hex_of k n) acc = Some (acc * 16 ^ k + n mod 16 ^ k)"
proof (induction k arbitrary: n)
  case 0
  then show ?case by simp
next
  case (Suc k)
  have "n mod (16 * 16 ^ k) = 16 * ((n div 16) mod 16 ^ k) + n mod 16"
    by (simp add: mod_mult2_eq)
  then show ?case
    by (simp add: unhex_snoc Suc hex_val_digit algebra_simps)
qed

lemma length_hex_of: "length (hex_of k n) = k"
  by (induction k arbitrary: n) auto

lemma ObjectId_str_oid: "ObjectId (str_oid w) = Inr w"
proof -
  have "unat w < 2 ^ 96" using unsigned_less[of w] by simp
  then have "unat w mod 16 ^ 24 = unat w" by simp
  then show ?thesis
    by (simp add: ObjectId_def str_oid_def length_hex_of unhex_hex_of)
qed

lemma ObjectId_error: "ObjectId x = Inl e \<Longrightarrow> e = InvalidId"
  by (auto simp: ObjectId_def split: if_splits option.splits)

subsection \<open>Lookups and the outcomes of the handlers\<close>

lemma find_one_org_None:
  "(find_one_org s name = None) = (\<forall>d \<in> set (organizations s). organization_name d \<noteq> name)"
  by (auto simp: find_one_org_def find_None_iff)

lemma find_one_org_Some:
  "find_one_org s name = Some d \<Longrightarrow> d \<in> set (organizations s) \<and> organization_name d = name"
  by (auto simp: find_one_org_def find_Some_iff)

lemma create_org_conflict:
  "find_one_org s (normalize_name (create_organization_name p)) = Some d \<Longrightarrow>
   create_org E g p s = (Inl (HTTPException 400 ''Organization already exists''), s)"
  by (simp add: create_org_def)

lemma create_org_result:
  "create_org E g p s = (Inr out, s') \<Longrightarrow>
   find_one_org s (normalize_name (create_organization_name p)) = None \<and>
   out = \<lparr>out_organization_name = normalize_name (create_organization_name p),
          out_collection_name = ''org_'' @ normalize_name (create_organization_name p),
          out_admin_id = str_oid (new_admin_oid g)\<rparr> \<and>
   organizations s' = organizations s @
     [\<lparr>org_oid = new_org_oid g,
       organization_name = normalize_name (create_organization_name p),
       collection_name = ''org_'' @ normalize_name (create_organization_name p),
       admin_id = str_oid (new_admin_oid g),
       created_at = utcnow g\<rparr>] \<and>
   admins s' = admins s @
     [\<lparr>admin_oid = new_admin_oid g,
       email = create_email p,
       password = hash_password E (create_password p),
       role = ''admin'',
       organization = normalize_name (create_organization_name p)\<rparr>] \<and>
   tenants s' = create_org_collection E (normalize_name (create_organization_name p)) (tenants s) \<and>
   journal s' = journal s @
     [CreateCollection (normalize_name (create_organization_name p)),
      InsertAdmin \<lparr>admin_oid = new_admin_oid g,
       email = create_email p,
       password = hash_password E (create_password p),
       role = ''admin'',
       organization = normalize_name (create_organization_name p)\<rparr>,
      InsertOrg \<lparr>org_oid = new_org_oid g,
       organization_name = normalize_name (create_organization_name p),
       collection_name = ''org_'' @ normalize_name (create_organization_name p),
       admin_id = str_oid (new_admin_oid g),
       created_at = utcnow g\<rparr>]"
  by (auto simp: create_org_def Let_def organizations_insert_one_def admins_insert_one_def
      call_create_org_collection_def split: option.splits)

lemma create_org_error_unchanged: "create_org E g p s = (Inl e, s') \<Longrightarrow> s' = s"
  by (auto simp: create_org_def Let_def split: option.splits)

lemma handle_rename_error:
  "handle_rename E ca org n s = (Inl e, s') \<Longrightarrow>
   (e = HTTPException 400 ''New organization name already exists'' \<and> s' = s) \<or> e = InvalidId"
  by (auto simp: handle_rename_def Let_def split: option.splits if_splits sum.splits
      dest: ObjectId_error)

lemma update_email_step_error: "update_email_step ca pu s = (Inl e, s') \<Longrightarrow> e = InvalidId"
  by (auto simp: update_email_step_def split: option.splits if_splits sum.splits
      dest: ObjectId_error)

lemma update_password_step_error:
  "update_password_step E ca pu s = (Inl e, s') \<Longrightarrow> e = InvalidId"
  by (auto simp: update_password_step_def split: option.splits if_splits sum.splits
      dest: ObjectId_error)

lemma handle_credentials_error: "handle_credentials E ca pu s = (Inl e, s') \<Longrightarrow> e = InvalidId"
  by (auto simp: handle_credentials_def split: if_splits sum.splits prod.splits
      dest: update_email_step_error update_password_step_error)

lemma return_updated_error: "return_updated n s = (Inl e, s') \<Longrightarrow> e = TypeError"
  by (auto simp: return_updated_def split: option.splits)

lemma update_org_http_unchanged:
  "update_org E pu ca s = (Inl (HTTPException c m), s') \<Longrightarrow> s' = s"
  by (auto simp: update_org_def split: option.splits sum.splits prod.splits
      dest: handle_rename_error handle_credentials_error return_updated_error)

lemma delete_org_not_found:
  "caller_org_id ca = normalize_name name \<Longrightarrow> find_one_org s (normalize_name name) = None \<Longrightarrow>
   delete_org E name ca s = (Inl (HTTPException 404 ''Organization not found''), s)"
  by (simp add: delete_org_def)

lemma delete_org_deleted:
  "caller_org_id ca = normalize_name name \<Longrightarrow>
   find_one_org s (normalize_name name) = Some org \<Longrightarrow>
   ObjectId (admin_id org) = Inr i \<Longrightarrow>
   delete_org E name ca s =
     (Inr ''deleted'',
      organizations_delete_one (normalize_name name)
        (admins_delete_one i (call_drop_org_collection E (normalize_name name) s)))"
  by (simp add: delete_org_def Let_def)

lemma create_run1:
  "create_org spec_env gen1 testorg empty_state =
     (Inr \<lparr>out_organization_name = ''testorg'', out_collection_name = ''org_testorg'',
           out_admin_id = ''000000000000000000000001''\<rparr>, state1)"
  by code_simp

subsection \<open>The handlers depend on a name through its normalized form\<close>

lemma create_org_cong:
  "normalize_name n1 = normalize_name n2 \<Longrightarrow>
   create_org E g (p\<lparr>create_organization_name := n1\<rparr>) s =
   create_org E g (p\<lparr>create_organization_name := n2\<rparr>) s"
  by (simp add: create_org_def Let_def split: option.splits)

lemma get_org_cong: "normalize_name n1 = normalize_name n2 \<Longrightarrow> get_org n1 s = get_org n2 s"
  by (simp add: get_org_def)

lemma update_email_step_name:
  "update_email_step ca (pu\<lparr>update_organization_name := x\<rparr>) s = update_email_step ca pu s"
  by (simp add: update_email_step_def)

lemma update_password_step_name:
  "update_password_step E ca (pu\<lparr>update_organization_name := x\<rparr>) s =
   update_password_step E ca pu s"
  by (simp add: update_password_step_def)

lemma handle_credentials_name:
  "handle_credentials E ca (pu\<lparr>update_organization_name := x\<rparr>) s =
   handle_credentials E ca pu s"
  by (simp add: handle_credentials_def update_email_step_name update_password_step_name
      cong: prod.case_cong sum.case_cong)

lemma update_org_cong:
  "normalize_name n1 = normalize_name n2 \<Longrightarrow>
   update_org E (pu\<lparr>update_organization_name := Some n1\<rparr>) ca s =
   update_org E (pu\<lparr>update_organization_name := Some n2\<rparr>) ca s"
  by (simp add: update_org_def handle_credentials_name
      cong: option.case_cong prod.case_cong sum.case_cong)

lemma delete_org_cong:
  "normalize_name n1 = normalize_name n2 \<Longrightarrow> delete_org E n1 ca s = delete_org E n2 ca s"
  by (simp add: delete_org_def)

subsection \<open>The steps of \<^verbatim>\<open>update_org\<close>\<close>

lemmas store_defs =
  call_create_org_collection_def call_drop_org_collection_def
  call_rename_and_sync_collection_def admins_insert_one_def organizations_insert_one_def
  organizations_set_name_def admins_set_organization_def admins_set_email_def
  admins_set_password_def admins_delete_one_def organizations_delete_one_def

lemma set_update_first: "set (update_first P f xs) \<subseteq> set xs \<union> f ` set xs"
  by (induction xs) auto

lemma find_append:
  "find P (xs @ ys) = (case find P xs of None \<Rightarrow> find P ys | Some x \<Rightarrow> Some x)"
  by (induction xs) auto

lemma handle_rename_cases:
  "handle_rename E ca org n s = (r, s') \<Longrightarrow>
   (n = caller_org_id ca \<and> r = Inr n \<and> s' = s) \<or>
   (n \<noteq> caller_org_id ca \<and> find_one_org s n \<noteq> None \<and>
      r = Inl (HTTPException 400 ''New organization name already exists'') \<and> s' = s) \<or>
   (n \<noteq> caller_org_id ca \<and> find_one_org s n = None \<and>
      ObjectId (caller_admin_id ca) = Inl InvalidId \<and> r = Inl InvalidId \<and>
      s' = organizations_set_name (org_oid org) n (''org_'' @ n) s) \<or>
   (n \<noteq> caller_org_id ca \<and> find_one_org s n = None \<and>
      (\<exists>i. ObjectId (caller_admin_id ca) = Inr i \<and> r = Inr n \<and>
        s' = call_rename_and_sync_collection E (caller_org_id ca) n
               (admins_set_organization i n
                 (organizations_set_name (org_oid org) n (''org_'' @ n) s))))"
  by (auto simp: handle_rename_def Let_def split: if_splits option.splits sum.splits
      dest: ObjectId_error)

lemma update_email_step_cases:
  "update_email_step ca pu s = (r, s') \<Longrightarrow>
   (\<not> truthy (update_email pu) \<and> r = Inr () \<and> s' = s) \<or>
   (truthy (update_email pu) \<and> ObjectId (caller_admin_id ca) = Inl InvalidId \<and>
      r = Inl InvalidId \<and> s' = s) \<or>
   (\<exists>i e. update_email pu = Some e \<and> e \<noteq> [] \<and> ObjectId (caller_admin_id ca) = Inr i \<and>
      r = Inr () \<and> s' = admins_set_email i e s)"
  by (auto simp: update_email_step_def split: if_splits option.splits sum.splits
      dest: ObjectId_error)

lemma update_password_step_cases:
  "update_password_step E ca pu s = (r, s') \<Longrightarrow>
   (\<not> truthy (update_password pu) \<and> r = Inr () \<and> s' = s) \<or>
   (truthy (update_password pu) \<and> ObjectId (caller_admin_id ca) = Inl InvalidId \<and>
      r = Inl InvalidId \<and> s' = s) \<or>
   (\<exists>i pw. update_password pu = Some pw \<and> pw \<noteq> [] \<and> ObjectId (caller_admin_id ca) = Inr i \<and>
      r = Inr () \<and> s' = admins_set_password i (hash_password E pw) s)"
  by (auto simp: update_password_step_def split: if_splits option.splits sum.splits
      dest: ObjectId_error)

lemma handle_credentials_steps:
  "handle_credentials E ca pu s = (r, s') \<Longrightarrow>
   \<exists>r1 s1. update_email_step ca pu s = (r1, s1) \<and>
     ((r1 = Inl InvalidId \<and> r = r1 \<and> s' = s1) \<or>
      (r1 = Inr () \<and> update_password_step E ca pu s1 = (r, s')))"
  apply (cases "update_email_step ca pu s")
  apply (auto simp: handle_credentials_def split: if_splits sum.splits
      dest: update_email_step_error)
   apply (auto simp: update_email_step_def update_password_step_def split: option.splits)
  done

lemma update_org_steps:
  "update_org E pu ca s = (r, s') \<Longrightarrow>
   (r = Inl (HTTPException 404 ''Organization not found'') \<and> s' = s \<and>
      find_one_org s (caller_org_id ca) = None) \<or>
   (r = Inl AttributeError \<and> s' = s \<and> update_organization_name pu = None) \<or>
   (\<exists>org nm r1 s1. find_one_org s (caller_org_id ca) = Some org \<and>
      update_organization_name pu = Some nm \<and>
      handle_rename E ca org (normalize_name nm) s = (r1, s1) \<and>
      ((\<exists>e. r1 = Inl e \<and> r = Inl e \<and> s' = s1) \<or>
       (r1 = Inr (normalize_name nm) \<and>
        (\<exists>r2. handle_credentials E ca pu s1 = (r2, s') \<and>
          ((\<exists>e. r2 = Inl e \<and> r = Inl e) \<or>
           (r2 = Inr () \<and> return_updated (normalize_name nm) s' = (r, s')))))))"
  apply (cases "find_one_org s (caller_org_id ca)")
   apply (simp add: update_org_def)
  apply (cases "update_organization_name pu")
   apply (simp add: update_org_def)
  subgoal for org nm
    apply (cases "handle_rename E ca org (normalize_name nm) s")
    subgoal for r1 s1
      apply (cases r1)
       apply (simp add: update_org_def)
      apply (frule handle_rename_cases)
      apply (cases "handle_credentials E ca pu s1")
      subgoal for t r2 s2
        apply (cases r2)
         apply (auto simp: update_org_def return_updated_def split: option.splits)
        done
      done
    done
  done

lemma passwords_written_append:
  "journal s' = journal s @ cs \<Longrightarrow> passwords_written s s' = List.map_filter password_written cs"
  by (simp add: passwords_written_def)

lemma map_filter_append:
  "List.map_filter f (xs @ ys) = List.map_filter f xs @ List.map_filter f ys"
  by (simp add: List.map_filter_def)

lemma email_step_frame:
  "update_email_step ca pu s = (r, s') \<Longrightarrow>
   organizations s' = organizations s \<and> tenants s' = tenants s \<and>
   map fixed_fields (admins s') = map fixed_fields (admins s) \<and>
   map password (admins s') = map password (admins s) \<and>
   (\<forall>i. ObjectId (caller_admin_id ca) = Inr i \<longrightarrow>
      filter (\<lambda>a. admin_oid a \<noteq> i) (admins s') = filter (\<lambda>a. admin_oid a \<noteq> i) (admins s)) \<and>
   (\<forall>e. ObjectId (caller_admin_id ca) = Inl e \<longrightarrow> admins s' = admins s) \<and>
   (\<exists>cs. journal s' = journal s @ cs \<and> List.map_filter password_written cs = [])"
  by (drule update_email_step_cases)
    (auto simp: admins_set_email_def map_update_first filter_update_first fixed_fields_def
      List.map_filter_def)

lemma password_step_frame:
  "update_password_step E ca pu s = (r, s') \<Longrightarrow>
   organizations s' = organizations s \<and> tenants s' = tenants s \<and>
   map fixed_fields (admins s') = map fixed_fields (admins s) \<and>
   map email (admins s') = map email (admins s) \<and>
   (\<forall>i. ObjectId (caller_admin_id ca) = Inr i \<longrightarrow>
      filter (\<lambda>a. admin_oid a \<noteq> i) (admins s') = filter (\<lambda>a. admin_oid a \<noteq> i) (admins s)) \<and>
   (\<forall>e. ObjectId (caller_admin_id ca) = Inl e \<longrightarrow> admins s' = admins s) \<and>
   (\<exists>cs. journal s' = journal s @ cs \<and>
      ((List.map_filter password_written cs = [] \<and> (r = Inr () \<longrightarrow> \<not> truthy (update_password pu))) \<or>
       (\<exists>pw. update_password pu = Some pw \<and> pw \<noteq> [] \<and>
          List.map_filter password_written cs = [hash_password E pw])))"
  by (drule update_password_step_cases)
    (auto simp: admins_set_password_def map_update_first filter_update_first fixed_fields_def
      List.map_filter_def)

lemma handle_credentials_frame:
  assumes "handle_credentials E ca pu s = (r, s')"
  shows "organizations s' = organizations s \<and> tenants s' = tenants s \<and>
   map fixed_fields (admins s') = map fixed_fields (admins s) \<and>
   (\<forall>i. ObjectId (caller_admin_id ca) = Inr i \<longrightarrow>
      filter (\<lambda>a. admin_oid a \<noteq> i) (admins s') = filter (\<lambda>a. admin_oid a \<noteq> i) (admins s)) \<and>
   (\<forall>e. ObjectId (caller_admin_id ca) = Inl e \<longrightarrow> admins s' = admins s) \<and>
   (\<exists>cs. journal s' = journal s @ cs \<and>
      ((List.map_filter password_written cs = [] \<and> (r = Inr () \<longrightarrow> \<not> truthy (update_password pu))) \<or>
       (\<exists>pw. update_password pu = Some pw \<and> pw \<noteq> [] \<and>
          List.map_filter password_written cs = [hash_password E pw])))"
proof -
  from handle_credentials_steps[OF assms] obtain r1 s1 where
    e: "update_email_step ca pu s = (r1, s1)" and
    d: "(r1 = Inl InvalidId \<and> r = r1 \<and> s' = s1) \<or>
        (r1 = Inr () \<and> update_password_step E ca pu s1 = (r, s'))"
    by blast
  note ef = email_step_frame[OF e]
  from d show ?thesis
  proof
    assume "r1 = Inl InvalidId \<and> r = r1 \<and> s' = s1"
    with ef show ?thesis by auto
  next
    assume "r1 = Inr () \<and> update_password_step E ca pu s1 = (r, s')"
    then have p: "update_password_step E ca pu s1 = (r, s')" by simp
    note pf = password_step_frame[OF p]
    from ef obtain cs1 where c1: "journal s1 = journal s @ cs1"
      "List.map_filter password_written cs1 = []" by blast
    from pf obtain cs2 where c2: "journal s' = journal s1 @ cs2"
      "(List.map_filter password_written cs2 = [] \<and> (r = Inr () \<longrightarrow> \<not> truthy (update_password pu))) \<or>
       (\<exists>pw. update_password pu = Some pw \<and> pw \<noteq> [] \<and>
          List.map_filter password_written cs2 = [hash_password E pw])" by blast
    have j: "journal s' = journal s @ (cs1 @ cs2)" using c1 c2 by simp
    have m: "List.map_filter password_written (cs1 @ cs2) = List.map_filter password_written cs2"
      using c1 by (simp add: map_filter_append)
    have "\<exists>cs. journal s' = journal s @ cs \<and>
      ((List.map_filter password_written cs = [] \<and> (r = Inr () \<longrightarrow> \<not> truthy (update_password pu))) \<or>
       (\<exists>pw. update_password pu = Some pw \<and> pw \<noteq> [] \<and>
          List.map_filter password_written cs = [hash_password E pw]))"
      using j m c2(2) by metis
    with ef pf show ?thesis by simp
  qed
qed

lemma find_admin_set_email:
  "find_one_admin (admins_set_email i e s) i = map_option (\<lambda>a. a\<lparr>email := e\<rparr>) (find_one_admin s i)"
  by (simp add: find_one_admin_def admins_set_email_def find_update_first_same)

lemma find_admin_set_password:
  "find_one_admin (admins_set_password i h s) i =
     map_option (\<lambda>a. a\<lparr>password := h\<rparr>) (find_one_admin s i)"
  by (simp add: find_one_admin_def admins_set_password_def find_update_first_same)

lemma find_admin_set_organization:
  "find_one_admin (admins_set_organization i n s) i =
     map_option (\<lambda>a. a\<lparr>organization := n\<rparr>) (find_one_admin s i)"
  by (simp add: find_one_admin_def admins_set_organization_def find_update_first_same)

lemma handle_credentials_caller:
  assumes "handle_credentials E ca pu s = (Inr u, s')"
    and "update_password pu = Some pw" and "pw \<noteq> []"
  shows "\<exists>i. ObjectId (caller_admin_id ca) = Inr i \<and>
     find_one_admin s' i =
       map_option (\<lambda>a. a\<lparr>email := new_email pu a, password := hash_password E pw\<rparr>)
         (find_one_admin s i)"
proof -
  from handle_credentials_steps[OF assms(1)] obtain r1 s1 where
    e: "update_email_step ca pu s = (r1, s1)" and
    p: "update_password_step E ca pu s1 = (Inr u, s')"
    by auto
  from update_password_step_cases[OF p] assms(2,3) obtain i where
    i: "ObjectId (caller_admin_id ca) = Inr i" and
    s': "s' = admins_set_password i (hash_password E pw) s1"
    by auto
  from update_email_step_cases[OF e] i
  have "find_one_admin s1 i = map_option (\<lambda>a. a\<lparr>email := new_email pu a\<rparr>) (find_one_admin s i)"
    by (cases "update_email pu")
      (auto simp: find_admin_set_email new_email_def option.map_ident)
  with i s' show ?thesis
    by (simp add: find_admin_set_password option.map_comp comp_def)
qed

lemma find_one_org_organizations:
  "organizations s' = organizations s \<Longrightarrow> find_one_org s' n = find_one_org s n"
  by (simp add: find_one_org_def)

lemma return_updated_cases:
  "return_updated n s = (r, s') \<Longrightarrow>
   s' = s \<and> (r = Inl TypeError \<and> find_one_org s n = None \<or>
             (\<exists>d. find_one_org s n = Some d \<and> r = Inr (to_json d)))"
  by (auto simp: return_updated_def split: option.splits)

subsection \<open>Outcomes and journal of \<^verbatim>\<open>update_org\<close> and \<^verbatim>\<open>delete_org\<close>\<close>

lemma update_org_two_cases:
  assumes "update_org E pu ca s = (r, s')"
  shows "(s' = s \<and> (\<forall>j. r \<noteq> Inr j)) \<or>
    (\<exists>org nm r1 s1.
      find_one_org s (caller_org_id ca) = Some org \<and>
      update_organization_name pu = Some nm \<and>
      handle_rename E ca org (normalize_name nm) s = (r1, s1) \<and>
      ((\<exists>e. r1 = Inl e \<and> r = Inl e \<and> s' = s1) \<or>
       (r1 = Inr (normalize_name nm) \<and>
        (\<exists>r2. handle_credentials E ca pu s1 = (r2, s') \<and>
          ((\<exists>e. r2 = Inl e \<and> r = Inl e) \<or>
           (r2 = Inr () \<and> return_updated (normalize_name nm) s' = (r, s')))))))"
  using update_org_steps[OF assms]
  apply (elim disjE)
    apply simp
   apply simp
  apply (rule disjI2)
  apply assumption
  done

lemma handle_rename_journal:
  "handle_rename E ca org n s = (r, s') \<Longrightarrow>
   \<exists>cs. journal s' = journal s @ cs \<and> List.map_filter password_written cs = []"
  by (drule handle_rename_cases) (auto simp: store_defs List.map_filter_def)

lemma journal_password_free:
  "journal s' = journal s @ cs \<Longrightarrow> List.map_filter password_written cs = [] \<Longrightarrow>
   (\<forall>j. r \<noteq> Inr j) \<Longrightarrow>
   \<exists>cs. journal s' = journal s @ cs \<and>
      ((List.map_filter password_written cs = [] \<and>
          ((\<exists>j. r = Inr j) \<longrightarrow> \<not> truthy (update_password pu))) \<or>
       (\<exists>pw. update_password pu = Some pw \<and> pw \<noteq> [] \<and>
          List.map_filter password_written cs = [hash_password E pw]))"
  by (rule exI[of _ cs]) simp

lemma update_org_journal:
  assumes "update_org E pu ca s = (r, s')"
  shows "\<exists>cs. journal s' = journal s @ cs \<and>
      ((List.map_filter password_written cs = [] \<and>
          ((\<exists>j. r = Inr j) \<longrightarrow> \<not> truthy (update_password pu))) \<or>
       (\<exists>pw. update_password pu = Some pw \<and> pw \<noteq> [] \<and>
          List.map_filter password_written cs = [hash_password E pw]))"
  using update_org_two_cases[OF assms]
proof (elim disjE exE conjE)
  assume "s' = s" "\<forall>j. r \<noteq> Inr j"
  then show ?thesis
    by (intro journal_password_free[of s' s "[]"]) (simp_all add: List.map_filter_def)
next
  fix org nm r1 s1 e
  assume ren: "handle_rename E ca org (normalize_name nm) s = (r1, s1)"
    and e: "r1 = Inl e" "r = Inl e" "s' = s1"
  from handle_rename_journal[OF ren] obtain cs1 where
    c1: "journal s1 = journal s @ cs1" "List.map_filter password_written cs1 = []" by blast
  show ?thesis
    by (rule journal_password_free[of s' s cs1]) (simp_all add: c1 e)
next
  fix org nm r1 s1 r2 e
  assume ren: "handle_rename E ca org (normalize_name nm) s = (r1, s1)"
    and cred: "handle_credentials E ca pu s1 = (r2, s')"
    and e: "r2 = Inl e" "r = Inl e"
  from handle_rename_journal[OF ren] obtain cs1 where
    c1: "journal s1 = journal s @ cs1" "List.map_filter password_written cs1 = []" by blast
  from handle_credentials_frame[OF cred] obtain cs2 where
    c2: "journal s' = journal s1 @ cs2" and
    d2: "(List.map_filter password_written cs2 = [] \<and>
              (r2 = Inr () \<longrightarrow> \<not> truthy (update_password pu))) \<or>
         (\<exists>pw. update_password pu = Some pw \<and> pw \<noteq> [] \<and>
            List.map_filter password_written cs2 = [hash_password E pw])" by blast
  have m: "List.map_filter password_written (cs1 @ cs2) = List.map_filter password_written cs2"
    using c1 by (simp add: map_filter_append)
  show ?thesis
    apply (rule exI[of _ "cs1 @ cs2"])
    unfolding m using d2 c1(1) c2 e by auto
next
  fix org nm r1 s1 r2
  assume ren: "handle_rename E ca org (normalize_name nm) s = (r1, s1)"
    and cred: "handle_credentials E ca pu s1 = (r2, s')"
    and e: "r2 = Inr ()"
  from handle_rename_journal[OF ren] obtain cs1 where
    c1: "journal s1 = journal s @ cs1" "List.map_filter password_written cs1 = []" by blast
  from handle_credentials_frame[OF cred] obtain cs2 where
    c2: "journal s' = journal s1 @ cs2" and
    d2: "(List.map_filter password_written cs2 = [] \<and>
              (r2 = Inr () \<longrightarrow> \<not> truthy (update_password pu))) \<or>
         (\<exists>pw. update_password pu = Some pw \<and> pw \<noteq> [] \<and>
            List.map_filter password_written cs2 = [hash_password E pw])" by blast
  have m: "List.map_filter password_written (cs1 @ cs2) = List.map_filter password_written cs2"
    using c1 by (simp add: map_filter_append)
  show ?thesis
    apply (rule exI[of _ "cs1 @ cs2"])
    unfolding m using d2 c1(1) c2 e by auto
qed

lemma handle_rename_passwords:
  "handle_rename E ca org n s = (r, s') \<Longrightarrow> map password (admins s') = map password (admins s)"
  by (drule handle_rename_cases) (auto simp: store_defs map_update_first)

lemma delete_org_journal:
  "\<exists>cs. journal (snd (delete_org E n ca s)) = journal s @ cs \<and>
     List.map_filter password_written cs = []"
  by (auto simp: delete_org_def Let_def store_defs List.map_filter_def
      split: option.splits sum.splits)

lemma find_one_admin_admins:
  "admins s' = admins s \<Longrightarrow> find_one_admin s' i = find_one_admin s i"
  by (simp add: find_one_admin_def)

lemma handle_rename_caller:
  "handle_rename E ca org n s = (Inr t, s') \<Longrightarrow> ObjectId (caller_admin_id ca) = Inr i \<Longrightarrow>
   (n = caller_org_id ca \<and> s' = s) \<or>
   (n \<noteq> caller_org_id ca \<and>
    find_one_admin s' i = map_option (\<lambda>a. a\<lparr>organization := n\<rparr>) (find_one_admin s i))"
proof -
  assume run: "handle_rename E ca org n s = (Inr t, s')"
    and i: "ObjectId (caller_admin_id ca) = Inr i"
  from handle_rename_cases[OF run] i consider "n = caller_org_id ca" "s' = s"
    | "n \<noteq> caller_org_id ca"
      "s' = call_rename_and_sync_collection E (caller_org_id ca) n
               (admins_set_organization i n
                 (organizations_set_name (org_oid org) n (''org_'' @ n) s))"
    by auto
  then show ?thesis
  proof cases
    case 1
    then show ?thesis by simp
  next
    case 2
    have "find_one_admin s' i =
        find_one_admin (admins_set_organization i n
                 (organizations_set_name (org_oid org) n (''org_'' @ n) s)) i"
      unfolding 2 by (rule find_one_admin_admins) (simp add: call_rename_and_sync_collection_def)
    also have "\<dots> = map_option (\<lambda>a. a\<lparr>organization := n\<rparr>)
        (find_one_admin (organizations_set_name (org_oid org) n (''org_'' @ n) s) i)"
      by (rule find_admin_set_organization)
    also have "find_one_admin (organizations_set_name (org_oid org) n (''org_'' @ n) s) i =
        find_one_admin s i"
      by (rule find_one_admin_admins) (simp add: organizations_set_name_def)
    finally show ?thesis using 2(1) by simp
  qed
qed

lemma update_org_success:
  assumes "update_org E pu ca s = (Inr j, s')"
  shows "\<exists>org nm s1. find_one_org s (caller_org_id ca) = Some org \<and>
    update_organization_name pu = Some nm \<and>
    handle_rename E ca org (normalize_name nm) s = (Inr (normalize_name nm), s1) \<and>
    handle_credentials E ca pu s1 = (Inr (), s') \<and>
    return_updated (normalize_name nm) s' = (Inr j, s')"
  using update_org_two_cases[OF assms]
  apply (elim disjE exE conjE)
     apply simp
    apply simp
   apply simp
  apply blast
  done

lemma update_org_password:
  assumes "update_org E pu ca s = (Inr j, s')" "update_password pu = Some pw" "pw \<noteq> []"
  shows "\<exists>i. ObjectId (caller_admin_id ca) = Inr i \<and>
     map_option password (find_one_admin s' i) =
       map_option (\<lambda>a. hash_password E pw) (find_one_admin s i)"
proof -
  from update_org_success[OF assms(1)] obtain org nm s1 where
    ren: "handle_rename E ca org (normalize_name nm) s = (Inr (normalize_name nm), s1)" and
    cred: "handle_credentials E ca pu s1 = (Inr (), s')"
    by blast
  from handle_credentials_caller[OF cred assms(2,3)] obtain i where
    i: "ObjectId (caller_admin_id ca) = Inr i" and
    f: "find_one_admin s' i =
       map_option (\<lambda>a. a\<lparr>email := new_email pu a, password := hash_password E pw\<rparr>)
         (find_one_admin s1 i)" by blast
  from handle_rename_caller[OF ren i]
  have "map_option password (find_one_admin s' i) =
       map_option (\<lambda>a. hash_password E pw) (find_one_admin s i)"
    unfolding f by (auto simp: option.map_comp comp_def)
  with i show ?thesis by blast
qed

subsection \<open>Renaming and derived names\<close>

lemma find_append_None:
  "find P xs = None \<Longrightarrow> find P (xs @ ys) = find P ys"
  by (simp add: find_append)

lemma handle_rename_organizations:
  "handle_rename E ca org n s = (r, s') \<Longrightarrow>
   organizations s' = organizations s \<or>
   (n \<noteq> caller_org_id ca \<and> find_one_org s n = None \<and>
    organizations s' =
      update_first (\<lambda>d. org_oid d = org_oid org)
        (\<lambda>d. d\<lparr>organization_name := n, collection_name := ''org_'' @ n\<rparr>) (organizations s))"
  by (drule handle_rename_cases) (auto simp: store_defs)

lemma update_org_organizations:
  assumes "update_org E pu ca s = (r, s')"
  shows "organizations s' = organizations s \<or>
   (\<exists>org nm. find_one_org s (caller_org_id ca) = Some org \<and>
      update_organization_name pu = Some nm \<and> normalize_name nm \<noteq> caller_org_id ca \<and>
      find_one_org s (normalize_name nm) = None \<and>
      organizations s' =
        update_first (\<lambda>d. org_oid d = org_oid org)
          (\<lambda>d. d\<lparr>organization_name := normalize_name nm,
                 collection_name := ''org_'' @ normalize_name nm\<rparr>) (organizations s))"
  using update_org_two_cases[OF assms]
proof (elim disjE exE conjE)
  assume "s' = s"
  then show ?thesis by simp
next
  fix org nm r1 s1 e
  assume "find_one_org s (caller_org_id ca) = Some org" "update_organization_name pu = Some nm"
    "handle_rename E ca org (normalize_name nm) s = (r1, s1)" "s' = s1"
  then show ?thesis using handle_rename_organizations[of E ca org "normalize_name nm" s r1 s1]
    by blast
next
  fix org nm r1 s1 r2 e
  assume a: "find_one_org s (caller_org_id ca) = Some org" "update_organization_name pu = Some nm"
    "handle_rename E ca org (normalize_name nm) s = (r1, s1)"
    and cred: "handle_credentials E ca pu s1 = (r2, s')"
  from handle_credentials_frame[OF cred] have "organizations s' = organizations s1" by simp
  with a show ?thesis using handle_rename_organizations[of E ca org "normalize_name nm" s r1 s1]
    by auto
next
  fix org nm r1 s1 r2
  assume a: "find_one_org s (caller_org_id ca) = Some org" "update_organization_name pu = Some nm"
    "handle_rename E ca org (normalize_name nm) s = (r1, s1)"
    and cred: "handle_credentials E ca pu s1 = (r2, s')"
  from handle_credentials_frame[OF cred] have "organizations s' = organizations s1" by simp
  with a show ?thesis using handle_rename_organizations[of E ca org "normalize_name nm" s r1 s1]
    by auto
qed

lemma delete_org_organizations:
  "organizations (snd (delete_org E n ca s)) = organizations s \<or>
   organizations (snd (delete_org E n ca s)) =
     delete_first (\<lambda>d. organization_name d = normalize_name n) (organizations s)"
  by (auto simp: delete_org_def Let_def store_defs split: option.splits sum.splits)

lemma derived_naming_create: "derived_naming s \<Longrightarrow> derived_naming (snd (create_org E g p s))"
  by (auto simp: create_org_def Let_def store_defs derived_naming_def split: option.splits)

lemma derived_naming_update:
  assumes "derived_naming s"
  shows "derived_naming (snd (update_org E pu ca s))"
proof -
  obtain r s' where run: "update_org E pu ca s = (r, s')" by (cases "update_org E pu ca s")
  from update_org_organizations[OF run] assms show ?thesis
    unfolding run snd_conv derived_naming_def
    by (elim disjE exE conjE) (simp_all add: list_all_update_first)
qed

lemma derived_naming_delete: "derived_naming s \<Longrightarrow> derived_naming (snd (delete_org E n ca s))"
  using delete_org_organizations[of E n ca s]
  by (auto simp: derived_naming_def list_all_delete_first)

lemma find_renamed_collection:
  assumes "\<forall>d\<in>set xs. organization_name d \<noteq> B"
    and "find (\<lambda>d. organization_name d = B)
          (update_first P (\<lambda>d. d\<lparr>organization_name := B, collection_name := C\<rparr>) xs) = Some d"
  shows "collection_name d = C"
proof -
  from assms(2) have "d \<in> set (update_first P (\<lambda>d. d\<lparr>organization_name := B, collection_name := C\<rparr>) xs)"
    and "organization_name d = B"
    by (auto simp: find_Some_iff)
  then have "d \<in> set xs \<union> (\<lambda>d. d\<lparr>organization_name := B, collection_name := C\<rparr>) ` set xs"
    "organization_name d = B"
    using set_update_first[of P "\<lambda>d. d\<lparr>organization_name := B, collection_name := C\<rparr>" xs]
    by blast+
  then show ?thesis
  proof (elim UnE imageE)
    assume "d \<in> set xs" "organization_name d = B"
    with assms(1) show ?thesis by blast
  next
    fix x assume "d = x\<lparr>organization_name := B, collection_name := C\<rparr>"
    then show ?thesis by simp
  qed
qed

lemma find_after_rename:
  assumes "distinct (map organization_name xs)" "distinct (map org_oid xs)"
    and "find (\<lambda>d. organization_name d = A) xs = Some org"
    and "\<forall>d\<in>set xs. organization_name d \<noteq> B" and "B \<noteq> A"
  shows "find (\<lambda>d. organization_name d = B)
           (update_first (\<lambda>d. org_oid d = org_oid org)
              (\<lambda>d. d\<lparr>organization_name := B, collection_name := C\<rparr>) xs) =
         Some (org\<lparr>organization_name := B, collection_name := C\<rparr>) \<and>
         find (\<lambda>d. organization_name d = A)
           (update_first (\<lambda>d. org_oid d = org_oid org)
              (\<lambda>d. d\<lparr>organization_name := B, collection_name := C\<rparr>) xs) = None"
  using assms
proof (induction xs)
  case Nil
  then show ?case by simp
next
  case (Cons x xs)
  show ?case
  proof (cases "organization_name x = A")
    case True
    with Cons.prems(3) have x: "x = org" by simp
    from Cons.prems(1) True have "A \<notin> organization_name ` set xs" by simp
    then have "\<forall>d\<in>set xs. organization_name d \<noteq> A" by (metis imageI)
    then have "find (\<lambda>d. organization_name d = A) xs = None" by (simp add: find_None_iff)
    with x Cons.prems(5) show ?thesis by simp
  next
    case False
    with Cons.prems(3) have f: "find (\<lambda>d. organization_name d = A) xs = Some org" by simp
    then have "org \<in> set xs" by (auto simp: find_Some_iff)
    with Cons.prems(2) have "org_oid x \<noteq> org_oid org" by auto
    moreover from Cons.prems(4) have "organization_name x \<noteq> B" by simp
    moreover from Cons.IH[OF _ _ f _ Cons.prems(5)] Cons.prems
    have "find (\<lambda>d. organization_name d = B)
           (update_first (\<lambda>d. org_oid d = org_oid org)
              (\<lambda>d. d\<lparr>organization_name := B, collection_name := C\<rparr>) xs) =
         Some (org\<lparr>organization_name := B, collection_name := C\<rparr>) \<and>
         find (\<lambda>d. organization_name d = A)
           (update_first (\<lambda>d. org_oid d = org_oid org)
              (\<lambda>d. d\<lparr>organization_name := B, collection_name := C\<rparr>) xs) = None"
      by simp
    ultimately show ?thesis using False by simp
  qed
qed

lemma find_fixed_fields:
  "map fixed_fields xs = map fixed_fields ys \<Longrightarrow>
   map_option fixed_fields (find (\<lambda>a. admin_oid a = i) xs) =
   map_option fixed_fields (find (\<lambda>a. admin_oid a = i) ys)"
proof (induction xs arbitrary: ys)
  case Nil
  then show ?case by simp
next
  case (Cons x xs)
  then obtain y ys' where ys: "ys = y # ys'" by (cases ys) auto
  with Cons.prems have xy: "fixed_fields x = fixed_fields y"
    and rest: "map fixed_fields xs = map fixed_fields ys'"
    by simp_all
  from xy have "admin_oid x = admin_oid y" by (simp add: fixed_fields_def)
  with Cons.IH[OF rest] ys xy show ?case by simp
qed

lemma find_organization:
  assumes "map fixed_fields (admins s') = map fixed_fields (admins s)"
  shows "map_option organization (find_one_admin s' i) = map_option organization (find_one_admin s i)"
proof -
  have "map_option organization (find_one_admin t i) =
      map_option (\<lambda>k. snd (snd k)) (map_option fixed_fields (find_one_admin t i))" for t
    by (simp add: option.map_comp comp_def fixed_fields_def)
  with find_fixed_fields[OF assms, of i] show ?thesis
    by (simp add: find_one_admin_def)
qed

lemma update_org_renamed:
  assumes "update_org E pu ca s = (Inr j, s')" "update_organization_name pu = Some nm"
    "normalize_name nm \<noteq> caller_org_id ca"
  shows "\<exists>org i d. find_one_org s (caller_org_id ca) = Some org \<and>
     find_one_org s (normalize_name nm) = None \<and>
     ObjectId (caller_admin_id ca) = Inr i \<and>
     organizations s' =
       update_first (\<lambda>d. org_oid d = org_oid org)
         (\<lambda>d. d\<lparr>organization_name := normalize_name nm,
                collection_name := ''org_'' @ normalize_name nm\<rparr>) (organizations s) \<and>
     find_one_org s' (normalize_name nm) = Some d \<and> j = to_json d \<and>
     map_option organization (find_one_admin s' i) =
       map_option (\<lambda>a. normalize_name nm) (find_one_admin s i)"
proof -
  from update_org_success[OF assms(1)] assms(2) obtain org s1 where
    org: "find_one_org s (caller_org_id ca) = Some org" and
    ren: "handle_rename E ca org (normalize_name nm) s = (Inr (normalize_name nm), s1)" and
    cred: "handle_credentials E ca pu s1 = (Inr (), s')" and
    ret: "return_updated (normalize_name nm) s' = (Inr j, s')"
    by auto
  from handle_rename_cases[OF ren] assms(3) obtain i where
    free: "find_one_org s (normalize_name nm) = None" and
    i: "ObjectId (caller_admin_id ca) = Inr i" and
    s1: "s1 = call_rename_and_sync_collection E (caller_org_id ca) (normalize_name nm)
               (admins_set_organization i (normalize_name nm)
                 (organizations_set_name (org_oid org) (normalize_name nm)
                    (''org_'' @ normalize_name nm) s))"
    by auto
  note fr = handle_credentials_frame[OF cred]
  from fr s1 have orgs: "organizations s' =
       update_first (\<lambda>d. org_oid d = org_oid org)
         (\<lambda>d. d\<lparr>organization_name := normalize_name nm,
                collection_name := ''org_'' @ normalize_name nm\<rparr>) (organizations s)"
    by (simp add: store_defs)
  from return_updated_cases[OF ret] obtain d where
    d: "find_one_org s' (normalize_name nm) = Some d" "j = to_json d" by auto
  from handle_rename_caller[OF ren i] assms(3)
  have "find_one_admin s1 i =
      map_option (\<lambda>a. a\<lparr>organization := normalize_name nm\<rparr>) (find_one_admin s i)" by simp
  then have "map_option organization (find_one_admin s1 i) =
      map_option (\<lambda>a. normalize_name nm) (find_one_admin s i)"
    by (simp add: option.map_comp comp_def)
  moreover from fr have "map_option organization (find_one_admin s' i) =
      map_option organization (find_one_admin s1 i)"
    by (intro find_organization) simp
  ultimately have "map_option organization (find_one_admin s' i) =
      map_option (\<lambda>a. normalize_name nm) (find_one_admin s i)" by simp
  with org free i orgs d show ?thesis by blast
qed

subsection \<open>Facts of the concrete run\<close>

lemma state2_consistent:
  "unique_names state2" "unique_org_oids state2" "unique_admin_oids state2"
  "normalized_names state2" "derived_naming state2" "admin_refs state2"
  by code_simp+

lemma rename_run:
  "update_org spec_env (rename_to ''TestOrg2'') caller1 state2 =
     (Inr \<lparr>json_id = ''000000000000000000000002'', json_organization_name = ''testorg2'',
            json_collection_name = ''org_testorg2'',
            json_admin_id = ''000000000000000000000001'', json_created_at = 100\<rparr>,
      snd (update_org spec_env (rename_to ''TestOrg2'') caller1 state2))"
proof -
  have "fst (update_org spec_env (rename_to ''TestOrg2'') caller1 state2) =
     Inr \<lparr>json_id = ''000000000000000000000002'', json_organization_name = ''testorg2'',
            json_collection_name = ''org_testorg2'',
            json_admin_id = ''000000000000000000000001'', json_created_at = 100\<rparr>"
    by code_simp
  then show ?thesis by (simp add: prod_eq_iff)
qed

lemma password_run:
  "update_org spec_env (new_password ''TESTORG'' ''newpw'') caller1 state2 =
     (Inr \<lparr>json_id = ''000000000000000000000002'', json_organization_name = ''testorg'',
            json_collection_name = ''org_testorg'',
            json_admin_id = ''000000000000000000000001'', json_created_at = 100\<rparr>,
      snd (update_org spec_env (new_password ''TESTORG'' ''newpw'') caller1 state2))"
proof -
  have "fst (update_org spec_env (new_password ''TESTORG'' ''newpw'') caller1 state2) =
     Inr \<lparr>json_id = ''000000000000000000000002'', json_organization_name = ''testorg'',
            json_collection_name = ''org_testorg'',
            json_admin_id = ''000000000000000000000001'', json_created_at = 100\<rparr>"
    by code_simp
  then show ?thesis by (simp add: prod_eq_iff)
qed

lemma caller1_facts:
  "find_one_org state2 (caller_org_id caller1) =
     Some \<lparr>org_oid = 2, organization_name = ''testorg'', collection_name = ''org_testorg'',
           admin_id = ''000000000000000000000001'', created_at = 100\<rparr>"
  "ObjectId (caller_admin_id caller1) = Inr 1"
  "find_one_admin state2 1 =
     Some \<lparr>admin_oid = 1, email = ''a@x.com'', password = ''hash:pw1'', role = ''admin'',
           organization = ''testorg''\<rparr>"
  "caller_org_id caller1 = ''testorg''"
  by code_simp+

subsection \<open>The stores that the handlers lead to are consistent\<close>

lemma admin_ref_case:
  "(case ObjectId x of Inl err \<Rightarrow> False | Inr i \<Rightarrow> i \<in> S) =
   (\<exists>i. ObjectId x = Inr i \<and> i \<in> S)"
  by (cases "ObjectId x") auto

lemma admin_refs_iff:
  "admin_refs s =
     (distinct (map (\<lambda>d. ObjectId (admin_id d)) (organizations s)) \<and>
      (\<forall>d\<in>set (organizations s).
         \<exists>i. ObjectId (admin_id d) = Inr i \<and> i \<in> admin_oid ` set (admins s)))"
  by (simp add: admin_refs_def list_all_iff admin_ref_case)

lemma admin_refs_maps:
  "admin_refs t =
     (distinct (map ObjectId (map admin_id (organizations t))) \<and>
      (\<forall>x\<in>set (map admin_id (organizations t)).
         \<exists>i. ObjectId x = Inr i \<and> i \<in> set (map admin_oid (admins t))))"
  by (simp add: admin_refs_iff comp_def)

lemma admin_refs_cong:
  "map admin_id (organizations s') = map admin_id (organizations s) \<Longrightarrow>
   map admin_oid (admins s') = map admin_oid (admins s) \<Longrightarrow>
   admin_refs s' = admin_refs s"
  by (simp only: admin_refs_maps)

lemma distinct_map_update_first_new:
  "distinct (map g xs) \<Longrightarrow> b \<notin> g ` set xs \<Longrightarrow> (\<And>x. g (f x) = b) \<Longrightarrow>
   distinct (map g (update_first P f xs))"
proof (induction xs)
  case Nil
  then show ?case by simp
next
  case (Cons x xs)
  have "g ` set (update_first P f xs) \<subseteq> g ` set xs \<union> {b}"
    using set_update_first[of P f xs] Cons.prems(3) by auto
  with Cons show ?case by auto
qed

lemma in_delete_first: "x \<in> set xs \<Longrightarrow> \<not> P x \<Longrightarrow> x \<in> set (delete_first P xs)"
  by (induction xs) auto

lemma delete_first_other_key:
  "distinct (map g xs) \<Longrightarrow> find P xs = Some x \<Longrightarrow> y \<in> set (delete_first P xs) \<Longrightarrow>
   g y \<noteq> g x"
proof (induction xs)
  case Nil
  then show ?case by simp
next
  case (Cons a xs)
  show ?case
  proof (cases "P a")
    case True
    with Cons.prems have "x = a" "y \<in> set xs" "g a \<notin> g ` set xs" by auto
    then show ?thesis by (metis imageI)
  next
    case False
    with Cons.prems have f: "find P xs = Some x" and y: "y = a \<or> y \<in> set (delete_first P xs)"
      and d: "distinct (map g xs)" "g a \<notin> g ` set xs" by auto
    from f have "x \<in> set xs" by (auto simp: find_Some_iff)
    from y show ?thesis
    proof
      assume "y = a"
      with \<open>x \<in> set xs\<close> d(2) show ?thesis by (metis imageI)
    next
      assume "y \<in> set (delete_first P xs)"
      with Cons.IH[OF d(1) f] show ?thesis by simp
    qed
  qed
qed

lemma consistent_create:
  assumes c: "consistent s" and f: "fresh g s"
  shows "consistent (snd (create_org E g p s))"
proof (cases "find_one_org s (normalize_name (create_organization_name p))")
  case (Some d)
  then show ?thesis using c by (simp add: create_org_conflict)
next
  case None
  define N where "N = normalize_name (create_organization_name p)"
  define s' where "s' = snd (create_org E g p s)"
  have orgs: "organizations s' = organizations s @
     [\<lparr>org_oid = new_org_oid g, organization_name = N, collection_name = ''org_'' @ N,
       admin_id = str_oid (new_admin_oid g), created_at = utcnow g\<rparr>]"
    and adm: "admins s' = admins s @
     [\<lparr>admin_oid = new_admin_oid g, email = create_email p,
       password = hash_password E (create_password p), role = ''admin'', organization = N\<rparr>]"
    using None by (simp_all add: s'_def N_def create_org_def Let_def store_defs)
  from None have free: "N \<notin> organization_name ` set (organizations s)"
    by (auto simp: find_one_org_None N_def)
  from c have refs: "\<forall>d\<in>set (organizations s).
         \<exists>i. ObjectId (admin_id d) = Inr i \<and> i \<in> admin_oid ` set (admins s)"
    and dref: "distinct (map (\<lambda>d. ObjectId (admin_id d)) (organizations s))"
    by (simp_all add: consistent_def admin_refs_iff)
  from f have fa: "new_admin_oid g \<notin> admin_oid ` set (admins s)"
    and fo: "new_org_oid g \<notin> org_oid ` set (organizations s)"
    by (simp_all add: fresh_def)
  have "unique_names s'" using c free by (simp add: unique_names_def consistent_def orgs)
  moreover have "unique_org_oids s'"
    using c fo by (simp add: unique_org_oids_def consistent_def orgs)
  moreover have "unique_admin_oids s'"
    using c fa by (simp add: unique_admin_oids_def consistent_def adm)
  moreover have "normalized_names s'"
    using c by (simp add: normalized_names_def consistent_def orgs N_def normalize_name_idem)
  moreover have "derived_naming s'"
    using c by (simp add: derived_naming_def consistent_def orgs)
  moreover have "admin_refs s'"
  proof -
    have "Inr (new_admin_oid g) \<notin> (\<lambda>d. ObjectId (admin_id d)) ` set (organizations s)"
    proof
      assume "Inr (new_admin_oid g) \<in> (\<lambda>d. ObjectId (admin_id d)) ` set (organizations s)"
      then obtain d where d: "d \<in> set (organizations s)"
        "ObjectId (admin_id d) = Inr (new_admin_oid g)" by force
      with refs obtain i where "ObjectId (admin_id d) = Inr i" "i \<in> admin_oid ` set (admins s)"
        by blast
      with d fa show False by simp
    qed
    with dref refs show ?thesis
      by (auto simp: admin_refs_iff orgs adm ObjectId_str_oid)
  qed
  ultimately show ?thesis by (simp add: consistent_def s'_def)
qed

lemma handle_rename_admin_oids:
  "handle_rename E ca org n s = (r, s') \<Longrightarrow>
   map admin_oid (admins s') = map admin_oid (admins s)"
  by (drule handle_rename_cases) (auto simp: store_defs map_update_first)

lemma fixed_fields_admin_oid:
  "map fixed_fields xs = map fixed_fields ys \<Longrightarrow> map admin_oid xs = map admin_oid ys"
proof -
  assume "map fixed_fields xs = map fixed_fields ys"
  then have "map fst (map fixed_fields xs) = map fst (map fixed_fields ys)" by simp
  then show ?thesis by (simp add: fixed_fields_def comp_def)
qed

lemma update_org_admin_oids:
  assumes "update_org E pu ca s = (r, s')"
  shows "map admin_oid (admins s') = map admin_oid (admins s)"
  using update_org_two_cases[OF assms]
proof (elim disjE exE conjE)
  assume "s' = s"
  then show ?thesis by simp
next
  fix org nm r1 s1 e
  assume "handle_rename E ca org (normalize_name nm) s = (r1, s1)" "s' = s1"
  then show ?thesis using handle_rename_admin_oids by simp
next
  fix org nm r1 s1 r2 e
  assume ren: "handle_rename E ca org (normalize_name nm) s = (r1, s1)"
    and cred: "handle_credentials E ca pu s1 = (r2, s')"
  from handle_credentials_frame[OF cred]
  have "map admin_oid (admins s') = map admin_oid (admins s1)"
    by (intro fixed_fields_admin_oid) simp
  with handle_rename_admin_oids[OF ren] show ?thesis by simp
next
  fix org nm r1 s1 r2
  assume ren: "handle_rename E ca org (normalize_name nm) s = (r1, s1)"
    and cred: "handle_credentials E ca pu s1 = (r2, s')"
  from handle_credentials_frame[OF cred]
  have "map admin_oid (admins s') = map admin_oid (admins s1)"
    by (intro fixed_fields_admin_oid) simp
  with handle_rename_admin_oids[OF ren] show ?thesis by simp
qed

lemma consistent_update:
  assumes c: "consistent s"
  shows "consistent (snd (update_org E pu ca s))"
proof -
  obtain r s' where run: "update_org E pu ca s = (r, s')" by (cases "update_org E pu ca s")
  note adm = update_org_admin_oids[OF run]
  have dn: "derived_naming s'"
    using derived_naming_update[of s E pu ca] c by (simp add: run consistent_def)
  from update_org_organizations[OF run] have "consistent s'"
  proof (elim disjE exE conjE)
    assume o: "organizations s' = organizations s"
    with adm c dn show ?thesis
      by (simp add: consistent_def unique_names_def unique_org_oids_def unique_admin_oids_def
          normalized_names_def admin_refs_cong[of s' s])
  next
    fix org nm
    assume free: "find_one_org s (normalize_name nm) = None"
      and o: "organizations s' =
        update_first (\<lambda>d. org_oid d = org_oid org)
          (\<lambda>d. d\<lparr>organization_name := normalize_name nm,
                 collection_name := ''org_'' @ normalize_name nm\<rparr>) (organizations s)"
    from free have nB: "normalize_name nm \<notin> organization_name ` set (organizations s)"
      by (auto simp: find_one_org_None)
    have "unique_names s'"
      using c nB unfolding unique_names_def o consistent_def
      by (intro distinct_map_update_first_new[where b = "normalize_name nm"]) simp_all
    moreover have "unique_org_oids s'"
      using c by (simp add: unique_org_oids_def o consistent_def map_update_first)
    moreover have "unique_admin_oids s'"
      using c adm by (simp add: unique_admin_oids_def consistent_def)
    moreover have "normalized_names s'"
      using c unfolding normalized_names_def o consistent_def
      by (intro list_all_update_first) (simp_all add: normalize_name_idem)
    moreover have "admin_refs s'"
    proof -
      have "map admin_id (organizations s') = map admin_id (organizations s)"
        by (simp add: o map_update_first)
      from admin_refs_cong[OF this adm] c show ?thesis by (simp add: consistent_def)
    qed
    ultimately show ?thesis using dn by (simp add: consistent_def)
  qed
  then show ?thesis by (simp add: run)
qed

lemma consistent_delete:
  assumes c: "consistent s"
  shows "consistent (snd (delete_org E n ca s))"
proof (cases "caller_org_id ca = normalize_name n")
  case False
  then show ?thesis using c by (simp add: delete_org_def)
next
  case True
  show ?thesis
  proof (cases "find_one_org s (normalize_name n)")
    case None
    then show ?thesis using c True by (simp add: delete_org_not_found)
  next
    case (Some org)
    from find_one_org_Some[OF Some] have org: "org \<in> set (organizations s)" by simp
    from c have refs: "\<forall>d\<in>set (organizations s).
         \<exists>i. ObjectId (admin_id d) = Inr i \<and> i \<in> admin_oid ` set (admins s)"
      and dref: "distinct (map (\<lambda>d. ObjectId (admin_id d)) (organizations s))"
      by (simp_all add: consistent_def admin_refs_iff)
    from refs[rule_format, OF org] obtain i where i: "ObjectId (admin_id org) = Inr i"
      by (elim exE conjE)
    define s' where "s' = snd (delete_org E n ca s)"
    have orgs: "organizations s' =
        delete_first (\<lambda>d. organization_name d = normalize_name n) (organizations s)"
      and adm: "admins s' = delete_first (\<lambda>a. admin_oid a = i) (admins s)"
      by (simp_all add: s'_def delete_org_deleted[OF True Some i] store_defs)
    have "unique_names s'"
      using c by (simp add: unique_names_def consistent_def orgs distinct_map_delete_first)
    moreover have "unique_org_oids s'"
      using c by (simp add: unique_org_oids_def consistent_def orgs distinct_map_delete_first)
    moreover have "unique_admin_oids s'"
      using c by (simp add: unique_admin_oids_def consistent_def adm distinct_map_delete_first)
    moreover have "normalized_names s'"
      using c by (simp add: normalized_names_def consistent_def orgs list_all_delete_first)
    moreover have "derived_naming s'"
      using c by (simp add: derived_naming_def consistent_def orgs list_all_delete_first)
    moreover have "admin_refs s'"
      unfolding admin_refs_iff
    proof (intro conjI ballI)
      show "distinct (map (\<lambda>d. ObjectId (admin_id d)) (organizations s'))"
        using dref by (simp add: orgs distinct_map_delete_first)
    next
      fix d assume d: "d \<in> set (organizations s')"
      then have d': "d \<in> set (delete_first (\<lambda>d. organization_name d = normalize_name n)
          (organizations s))" by (simp add: orgs)
      then have ds: "d \<in> set (organizations s)"
        by (rule subsetD[OF set_delete_first])
      from refs[rule_format, OF ds] obtain k where k1: "ObjectId (admin_id d) = Inr k"
        and "k \<in> admin_oid ` set (admins s)" by (elim exE conjE)
      then obtain a where k23: "a \<in> set (admins s)" "admin_oid a = k" by (elim imageE) simp
      note k = k1 k23
      from Some have "find (\<lambda>d. organization_name d = normalize_name n) (organizations s) =
          Some org" by (simp add: find_one_org_def)
      from delete_first_other_key[OF dref this d'] have "ObjectId (admin_id d) \<noteq> ObjectId (admin_id org)" .
      with i k(1) have "k \<noteq> i" by simp
      with k(2,3) have "a \<in> set (admins s')"
        by (simp add: adm in_delete_first)
      with k have "k \<in> admin_oid ` set (admins s')" by (simp add: image_iff) (rule bexI[of _ a], simp_all)
      with k(1) show "\<exists>i. ObjectId (admin_id d) = Inr i \<and> i \<in> admin_oid ` set (admins s')"
        by simp
    qed
    ultimately show ?thesis by (simp add: consistent_def s'_def)
  qed
qed

lemma reachable_consistent: "reachable E s \<Longrightarrow> consistent s"
proof (induction rule: reachable.induct)
  case reachable_empty
  show ?case
    by (simp add: consistent_def empty_state_def unique_names_def unique_org_oids_def
        unique_admin_oids_def normalized_names_def derived_naming_def admin_refs_def)
next
  case (reachable_create s g payload)
  then show ?case by (simp add: consistent_create)
next
  case (reachable_update s payload ca)
  then show ?case by (simp add: consistent_update)
next
  case (reachable_delete s name ca)
  then show ?case by (simp add: consistent_delete)
qed

text \<open>
  In a store that the handlers lead to, every stored \<^verbatim>\<open>admin_id\<close> reads back as
  the identifier of an admin record, so \<^verbatim>\<open>delete_org\<close> never stops between its
  commands there.
\<close>

lemma reachable_admin_ref:
  assumes "reachable E s" and "find_one_org s name = Some org"
  shows "\<exists>i. ObjectId (admin_id org) = Inr i \<and> find_one_admin s i \<noteq> None"
proof -
  from reachable_consistent[OF assms(1)] have
    "\<forall>d\<in>set (organizations s).
       \<exists>i. ObjectId (admin_id d) = Inr i \<and> i \<in> admin_oid ` set (admins s)"
    by (simp add: consistent_def admin_refs_iff)
  with find_one_org_Some[OF assms(2)] obtain i where
    i: "ObjectId (admin_id org) = Inr i" and "i \<in> admin_oid ` set (admins s)"
    by (elim conjE) (drule (1) bspec, elim exE conjE)
  then obtain a where "a \<in> set (admins s)" "admin_oid a = i" by (elim imageE) simp
  then have "find_one_admin s i \<noteq> None"
    by (simp add: find_one_admin_def find_None_iff) (rule exI[of _ a], simp)
  with i show ?thesis by simp
qed

subsection \<open>What a delete leaves\<close>

lemma delete_first_takeWhile:
  "delete_first P xs = takeWhile (\<lambda>x. \<not> P x) xs @ tl (dropWhile (\<lambda>x. \<not> P x) xs)"
  by (induction xs) auto

lemma delete_first_filter:
  "distinct (map g xs) \<Longrightarrow> delete_first (\<lambda>x. g x = k) xs = filter (\<lambda>x. g x \<noteq> k) xs"
proof (induction xs)
  case Nil
  then show ?case by simp
next
  case (Cons a xs)
  show ?case
  proof (cases "g a = k")
    case True
    with Cons.prems have "k \<notin> g ` set xs" by auto
    then have "\<forall>x\<in>set xs. g x \<noteq> k" by (metis imageI)
    then have "filter (\<lambda>x. g x \<noteq> k) xs = xs" by (simp add: filter_id_conv)
    with True show ?thesis by simp
  next
    case False
    with Cons show ?thesis by simp
  qed
qed

subsection \<open>A password reaches the store through its hash\<close>

lemma create_org_password_flow:
  "create_org E g p s =
   create_org (E\<lparr>hash_password := \<lambda>x. hash_password E (create_password p)\<rparr>) g
     (p\<lparr>create_password := pw'\<rparr>) s"
  by (simp add: create_org_def Let_def store_defs split: option.splits)

lemma handle_rename_hash:
  "handle_rename (E\<lparr>hash_password := h\<rparr>) ca org n s = handle_rename E ca org n s"
  by (simp add: handle_rename_def Let_def call_rename_and_sync_collection_def
      split: option.splits sum.splits)

lemma update_email_step_password:
  "update_email_step ca (pu\<lparr>update_password := x\<rparr>) s = update_email_step ca pu s"
  by (simp add: update_email_step_def)

lemma update_password_step_flow:
  "update_password pu = Some pw \<Longrightarrow> pw \<noteq> [] \<Longrightarrow> pw' \<noteq> [] \<Longrightarrow>
   update_password_step (E\<lparr>hash_password := \<lambda>x. hash_password E pw\<rparr>) ca
     (pu\<lparr>update_password := Some pw'\<rparr>) s =
   update_password_step E ca pu s"
  by (simp add: update_password_step_def split: sum.splits)

lemma handle_credentials_flow:
  "update_password pu = Some pw \<Longrightarrow> pw \<noteq> [] \<Longrightarrow> pw' \<noteq> [] \<Longrightarrow>
   handle_credentials (E\<lparr>hash_password := \<lambda>x. hash_password E pw\<rparr>) ca
     (pu\<lparr>update_password := Some pw'\<rparr>) s =
   handle_credentials E ca pu s"
  by (simp add: handle_credentials_def update_email_step_password update_password_step_flow
      cong: prod.case_cong sum.case_cong)

lemma update_org_password_flow:
  "update_password pu = Some pw \<Longrightarrow> pw \<noteq> [] \<Longrightarrow> pw' \<noteq> [] \<Longrightarrow>
   update_org E pu ca s =
   update_org (E\<lparr>hash_password := \<lambda>x. hash_password E pw\<rparr>) (pu\<lparr>update_password := Some pw'\<rparr>)
     ca s"
  by (simp add: update_org_def handle_rename_hash handle_credentials_flow
      cong: option.case_cong prod.case_cong sum.case_cong)

subsection \<open>The strings in the store\<close>

lemma strings_update_first:
  "(\<And>x. set (f (u x)) \<subseteq> set (f x) \<union> A) \<Longrightarrow>
   set (concat (map f (update_first P u xs))) \<subseteq> set (concat (map f xs)) \<union> A"
proof (induction xs)
  case Nil
  then show ?case by simp
next
  case (Cons x xs)
  from Cons.prems have "set (f (u x)) \<subseteq> set (f x) \<union> A" .
  moreover from Cons have
    "set (concat (map f (update_first P u xs))) \<subseteq> set (concat (map f xs)) \<union> A" by simp
  ultimately show ?case by auto
qed

lemma strings_delete_first:
  "set (concat (map f (delete_first P xs))) \<subseteq> set (concat (map f xs))"
  using set_delete_first[of P xs] by auto

lemma strings_set_name:
  "set (stored_strings (organizations_set_name i n c s)) \<subseteq> set (stored_strings s) \<union> {n, c}"
proof -
  have "set (concat (map org_strings
      (update_first (\<lambda>d. org_oid d = i)
        (\<lambda>d. d\<lparr>organization_name := n, collection_name := c\<rparr>) (organizations s)))) \<subseteq>
      set (concat (map org_strings (organizations s))) \<union> {n, c}"
    by (rule strings_update_first) (auto simp: org_strings_def)
  then show ?thesis
    by (auto simp: stored_strings_def organizations_set_name_def)
qed

lemma strings_set_organization:
  "set (stored_strings (admins_set_organization i n s)) \<subseteq> set (stored_strings s) \<union> {n}"
proof -
  have "set (concat (map admin_strings
      (update_first (\<lambda>a. admin_oid a = i) (\<lambda>a. a\<lparr>organization := n\<rparr>) (admins s)))) \<subseteq>
      set (concat (map admin_strings (admins s))) \<union> {n}"
    by (rule strings_update_first) (auto simp: admin_strings_def)
  then show ?thesis
    by (auto simp: stored_strings_def admins_set_organization_def)
qed

lemma strings_set_email:
  "set (stored_strings (admins_set_email i e s)) \<subseteq> set (stored_strings s) \<union> {e}"
proof -
  have "set (concat (map admin_strings
      (update_first (\<lambda>a. admin_oid a = i) (\<lambda>a. a\<lparr>email := e\<rparr>) (admins s)))) \<subseteq>
      set (concat (map admin_strings (admins s))) \<union> {e}"
    by (rule strings_update_first) (auto simp: admin_strings_def)
  then show ?thesis
    by (auto simp: stored_strings_def admins_set_email_def)
qed

lemma strings_set_password:
  "set (stored_strings (admins_set_password i h s)) \<subseteq> set (stored_strings s) \<union> {h}"
proof -
  have "set (concat (map admin_strings
      (update_first (\<lambda>a. admin_oid a = i) (\<lambda>a. a\<lparr>password := h\<rparr>) (admins s)))) \<subseteq>
      set (concat (map admin_strings (admins s))) \<union> {h}"
    by (rule strings_update_first) (auto simp: admin_strings_def)
  then show ?thesis
    by (auto simp: stored_strings_def admins_set_password_def)
qed

lemma strings_rename_and_sync:
  "stored_strings (call_rename_and_sync_collection E old new s) = stored_strings s"
  by (simp add: stored_strings_def call_rename_and_sync_collection_def)

lemma handle_rename_strings:
  assumes "handle_rename E ca org n s = (r, s')"
  shows "set (stored_strings s') \<subseteq> set (stored_strings s) \<union> {n, ''org_'' @ n}"
  using handle_rename_cases[OF assms]
proof (elim disjE conjE exE)
  assume "s' = s"
  then show ?thesis by auto
next
  assume "s' = s" "find_one_org s n \<noteq> None"
  then show ?thesis by auto
next
  assume "s' = organizations_set_name (org_oid org) n (''org_'' @ n) s"
  then show ?thesis using strings_set_name[of "org_oid org" n "''org_'' @ n" s] by simp
next
  fix i
  assume s': "s' = call_rename_and_sync_collection E (caller_org_id ca) n
               (admins_set_organization i n
                 (organizations_set_name (org_oid org) n (''org_'' @ n) s))"
  have "set (stored_strings s') \<subseteq>
      set (stored_strings (organizations_set_name (org_oid org) n (''org_'' @ n) s)) \<union> {n}"
    unfolding s' strings_rename_and_sync by (rule strings_set_organization)
  with strings_set_name[of "org_oid org" n "''org_'' @ n" s] show ?thesis by blast
qed

lemma email_step_strings:
  assumes "update_email_step ca pu s = (r, s')"
  shows "set (stored_strings s') \<subseteq>
     set (stored_strings s) \<union> (case update_email pu of None \<Rightarrow> {} | Some e \<Rightarrow> {e})"
  using update_email_step_cases[OF assms]
proof (elim disjE conjE exE)
  assume "s' = s" "\<not> truthy (update_email pu)"
  then show ?thesis by auto
next
  assume "s' = s" "truthy (update_email pu)"
  then show ?thesis by auto
next
  fix i e
  assume "update_email pu = Some e" "s' = admins_set_email i e s"
  then show ?thesis using strings_set_email[of i e s] by simp
qed

lemma password_step_strings:
  assumes "update_password_step E ca pu s = (r, s')"
  shows "set (stored_strings s') \<subseteq>
     set (stored_strings s) \<union>
     (case update_password pu of None \<Rightarrow> {} | Some pw \<Rightarrow> {hash_password E pw})"
  using update_password_step_cases[OF assms]
proof (elim disjE conjE exE)
  assume "s' = s" "\<not> truthy (update_password pu)"
  then show ?thesis by auto
next
  assume "s' = s" "truthy (update_password pu)"
  then show ?thesis by auto
next
  fix i pw
  assume "update_password pu = Some pw" "s' = admins_set_password i (hash_password E pw) s"
  then show ?thesis using strings_set_password[of i "hash_password E pw" s] by simp
qed

lemma handle_credentials_strings:
  assumes "handle_credentials E ca pu s = (r, s')"
  shows "set (stored_strings s') \<subseteq>
     set (stored_strings s) \<union> (case update_email pu of None \<Rightarrow> {} | Some e \<Rightarrow> {e}) \<union>
     (case update_password pu of None \<Rightarrow> {} | Some pw \<Rightarrow> {hash_password E pw})"
proof -
  from handle_credentials_steps[OF assms] obtain r1 s1 where
    e: "update_email_step ca pu s = (r1, s1)" and
    d: "(r1 = Inl InvalidId \<and> r = r1 \<and> s' = s1) \<or>
        (r1 = Inr () \<and> update_password_step E ca pu s1 = (r, s'))"
    by (elim exE conjE)
  note es = email_step_strings[OF e]
  from d show ?thesis
  proof (elim disjE conjE)
    assume "s' = s1"
    with es show ?thesis by blast
  next
    assume "update_password_step E ca pu s1 = (r, s')"
    from password_step_strings[OF this] es show ?thesis by blast
  qed
qed

lemma update_org_strings:
  assumes "update_org E pu ca s = (r, s')"
  shows "set (stored_strings s') \<subseteq>
     set (stored_strings s) \<union>
     (case update_organization_name pu of
        None \<Rightarrow> {} | Some nm \<Rightarrow> {normalize_name nm, ''org_'' @ normalize_name nm}) \<union>
     (case update_email pu of None \<Rightarrow> {} | Some e \<Rightarrow> {e}) \<union>
     (case update_password pu of None \<Rightarrow> {} | Some pw \<Rightarrow> {hash_password E pw})"
  using update_org_two_cases[OF assms]
proof (elim disjE exE conjE)
  assume "s' = s"
  then show ?thesis by auto
next
  fix org nm r1 s1 e
  assume nm: "update_organization_name pu = Some nm"
    and ren: "handle_rename E ca org (normalize_name nm) s = (r1, s1)" and "s' = s1"
  with handle_rename_strings[OF ren] show ?thesis by auto
next
  fix org nm r1 s1 r2 e
  assume nm: "update_organization_name pu = Some nm"
    and ren: "handle_rename E ca org (normalize_name nm) s = (r1, s1)"
    and cred: "handle_credentials E ca pu s1 = (r2, s')"
  from handle_rename_strings[OF ren] handle_credentials_strings[OF cred] nm
  show ?thesis by (simp add: subset_iff) blast
next
  fix org nm r1 s1 r2
  assume nm: "update_organization_name pu = Some nm"
    and ren: "handle_rename E ca org (normalize_name nm) s = (r1, s1)"
    and cred: "handle_credentials E ca pu s1 = (r2, s')"
  from handle_rename_strings[OF ren] handle_credentials_strings[OF cred] nm
  show ?thesis by (simp add: subset_iff) blast
qed

lemma delete_org_subsets:
  "set (organizations (snd (delete_org E n ca s))) \<subseteq> set (organizations s) \<and>
   set (admins (snd (delete_org E n ca s))) \<subseteq> set (admins s)"
  by (auto simp: delete_org_def Let_def store_defs split: option.splits sum.splits
      dest: subsetD[OF set_delete_first])

lemma stored_strings_mono:
  "set (organizations s') \<subseteq> set (organizations s) \<Longrightarrow> set (admins s') \<subseteq> set (admins s) \<Longrightarrow>
   set (stored_strings s') \<subseteq> set (stored_strings s)"
  by (auto simp: stored_strings_def)

lemma delete_org_strings:
  "set (stored_strings (snd (delete_org E n ca s))) \<subseteq> set (stored_strings s)"
  using delete_org_subsets[of E n ca s] by (intro stored_strings_mono) simp_all

lemma create_org_strings:
  assumes "create_org E g p s = (Inr out, s')"
  shows "set (stored_strings s') =
     set (stored_strings s) \<union>
     {normalize_name (create_organization_name p),
      ''org_'' @ normalize_name (create_organization_name p),
      str_oid (new_admin_oid g), create_email p,
      hash_password E (create_password p), ''admin''}"
  using create_org_result[OF assms]
  by (auto simp: stored_strings_def org_strings_def admin_strings_def)

lemma passwords_written_hashed:
  "(create_org E g p s = (Inr out, s1) \<longrightarrow>
      (\<exists>a. admins s1 = admins s @ [a] \<and> admin_oid a = new_admin_oid g \<and>
           password a = hash_password E (create_password p)) \<and>
      passwords_written s s1 = [hash_password E (create_password p)]) \<and>
   (update_org E pu ca s = (Inr j, s2) \<and> update_password pu = Some pw \<and> pw \<noteq> [] \<longrightarrow>
      (\<exists>i. ObjectId (caller_admin_id ca) = Inr i \<and>
         map_option password (find_one_admin s2 i) =
           map_option (\<lambda>a. hash_password E pw) (find_one_admin s i)) \<and>
      passwords_written s s2 = [hash_password E pw]) \<and>
   (passwords_written s (snd (update_org E pu ca s)) = [] \<or>
    (\<exists>pw. update_password pu = Some pw \<and> pw \<noteq> [] \<and>
       passwords_written s (snd (update_org E pu ca s)) = [hash_password E pw])) \<and>
   passwords_written s (snd (delete_org E n ca s)) = [] \<and>
   (\<forall>e. fst (create_org E g p s) = Inl e \<longrightarrow> passwords_written s (snd (create_org E g p s)) = [])"
proof (intro conjI impI allI)
  assume c: "create_org E g p s = (Inr out, s1)"
  note cr = create_org_result[OF c]
  from cr have a: "admins s1 = admins s @
     [\<lparr>admin_oid = new_admin_oid g, email = create_email p,
       password = hash_password E (create_password p), role = ''admin'',
       organization = normalize_name (create_organization_name p)\<rparr>]" by simp
  show "\<exists>a. admins s1 = admins s @ [a] \<and> admin_oid a = new_admin_oid g \<and>
           password a = hash_password E (create_password p)"
    by (rule exI[of _ "\<lparr>admin_oid = new_admin_oid g, email = create_email p,
       password = hash_password E (create_password p), role = ''admin'',
       organization = normalize_name (create_organization_name p)\<rparr>"]) (simp add: a)
  from cr have j: "journal s1 = journal s @
     [CreateCollection (normalize_name (create_organization_name p)),
      InsertAdmin \<lparr>admin_oid = new_admin_oid g,
       email = create_email p,
       password = hash_password E (create_password p),
       role = ''admin'',
       organization = normalize_name (create_organization_name p)\<rparr>,
      InsertOrg \<lparr>org_oid = new_org_oid g,
       organization_name = normalize_name (create_organization_name p),
       collection_name = ''org_'' @ normalize_name (create_organization_name p),
       admin_id = str_oid (new_admin_oid g),
       created_at = utcnow g\<rparr>]" by simp
  show "passwords_written s s1 = [hash_password E (create_password p)]"
    unfolding passwords_written_append[OF j] by (simp add: List.map_filter_def)
next
  assume u: "update_org E pu ca s = (Inr j, s2) \<and> update_password pu = Some pw \<and> pw \<noteq> []"
  then have run: "update_org E pu ca s = (Inr j, s2)" and
    pw: "update_password pu = Some pw" "pw \<noteq> []" by simp_all
  from update_org_password[OF run pw]
  show "\<exists>i. ObjectId (caller_admin_id ca) = Inr i \<and>
         map_option password (find_one_admin s2 i) =
           map_option (\<lambda>a. hash_password E pw) (find_one_admin s i)" .
  from pw have t: "truthy (update_password pu)" by simp
  from update_org_journal[OF run] obtain cs where
    cs: "journal s2 = journal s @ cs" and
    d: "(List.map_filter password_written cs = [] \<and>
          ((\<exists>j'. Inr j = (Inr j' :: error + org_json)) \<longrightarrow> \<not> truthy (update_password pu))) \<or>
       (\<exists>pw. update_password pu = Some pw \<and> pw \<noteq> [] \<and>
          List.map_filter password_written cs = [hash_password E pw])"
    by (elim exE conjE) (rule that)
  from d show "passwords_written s s2 = [hash_password E pw]"
  proof
    assume "List.map_filter password_written cs = [] \<and>
          ((\<exists>j'. Inr j = (Inr j' :: error + org_json)) \<longrightarrow> \<not> truthy (update_password pu))"
    then have "\<not> truthy (update_password pu)" by simp
    with t show ?thesis by simp
  next
    assume "\<exists>pw. update_password pu = Some pw \<and> pw \<noteq> [] \<and>
          List.map_filter password_written cs = [hash_password E pw]"
    then have "List.map_filter password_written cs = [hash_password E pw]"
      using pw by simp
    then show ?thesis unfolding passwords_written_append[OF cs] .
  qed
next
  obtain r s' where run: "update_org E pu ca s = (r, s')" by (cases "update_org E pu ca s")
  from update_org_journal[OF run] obtain cs where
    cs: "journal s' = journal s @ cs" and
    d0: "(List.map_filter password_written cs = [] \<and>
          ((\<exists>j. r = Inr j) \<longrightarrow> \<not> truthy (update_password pu))) \<or>
       (\<exists>pw. update_password pu = Some pw \<and> pw \<noteq> [] \<and>
          List.map_filter password_written cs = [hash_password E pw])"
    by (elim exE conjE) (rule that)
  from d0 have d: "List.map_filter password_written cs = [] \<or>
       (\<exists>pw. update_password pu = Some pw \<and> pw \<noteq> [] \<and>
          List.map_filter password_written cs = [hash_password E pw])"
    by (elim disjE conjE) (rule disjI1, assumption, rule disjI2, assumption)
  show "passwords_written s (snd (update_org E pu ca s)) = [] \<or>
    (\<exists>pw. update_password pu = Some pw \<and> pw \<noteq> [] \<and>
       passwords_written s (snd (update_org E pu ca s)) = [hash_password E pw])"
    unfolding run snd_conv passwords_written_append[OF cs] by (rule d)
next
  from delete_org_journal[of E n ca s] obtain cs where
    cs: "journal (snd (delete_org E n ca s)) = journal s @ cs" and
    m: "List.map_filter password_written cs = []"
    by (elim exE conjE) (rule that)
  show "passwords_written s (snd (delete_org E n ca s)) = []"
    unfolding passwords_written_append[OF cs] by (rule m)
next
  fix e assume "fst (create_org E g p s) = Inl e"
  then have "create_org E g p s = (Inl e, snd (create_org E g p s))"
    by (simp add: prod_eq_iff)
  from create_org_error_unchanged[OF this]
  show "passwords_written s (snd (create_org E g p s)) = []"
    by (simp add: passwords_written_def List.map_filter_def)
qed

subsection \<open>The claims\<close>

text \<open>
  Claim C1. Let the store have unique names and identifiers and normalized names, let
  \<open>org\<close> be the organization under the caller's name \<open>A\<close>, and let an update with a
  payload name whose normalized form \<open>B\<close> differs from \<open>A\<close> succeed. Then in the store it
  leaves, \<^verbatim>\<open>get_org\<close> fails on \<open>A\<close> with \<^verbatim>\<open>404\<close>, returns on \<open>B\<close> the record
  \<open>org\<close> with its name set to \<open>B\<close> and its collection name to \<^verbatim>\<open>"org_" + B\<close>, which is
  also the response of the update, and the admin record of the caller's \<^verbatim>\<open>admin_id\<close>
  has \<open>B\<close> as its \<^verbatim>\<open>organization\<close>.
\<close>

theorem rename_consistency:
  assumes "unique_names s" "unique_org_oids s" "normalized_names s"
    and "find_one_org s (caller_org_id ca) = Some org"
    and "update_organization_name pu = Some nm"
    and "normalize_name nm \<noteq> caller_org_id ca"
    and "update_org E pu ca s = (Inr j, s')"
  shows "get_org (caller_org_id ca) s' = Inl (HTTPException 404 ''Organization not found'') \<and>
     get_org (normalize_name nm) s' =
       Inr (to_json (org\<lparr>organization_name := normalize_name nm,
                         collection_name := ''org_'' @ normalize_name nm\<rparr>)) \<and>
     j = to_json (org\<lparr>organization_name := normalize_name nm,
                     collection_name := ''org_'' @ normalize_name nm\<rparr>) \<and>
     (\<exists>i. ObjectId (caller_admin_id ca) = Inr i \<and>
        map_option organization (find_one_admin s' i) =
          map_option (\<lambda>a. normalize_name nm) (find_one_admin s i))"
proof -
  from update_org_renamed[OF assms(7,5,6)] obtain org' i d where
    "find_one_org s (caller_org_id ca) = Some org'" and
    free: "find_one_org s (normalize_name nm) = None" and
    i: "ObjectId (caller_admin_id ca) = Inr i" and
    orgs': "organizations s' =
       update_first (\<lambda>d. org_oid d = org_oid org')
         (\<lambda>d. d\<lparr>organization_name := normalize_name nm,
                collection_name := ''org_'' @ normalize_name nm\<rparr>) (organizations s)" and
    d: "find_one_org s' (normalize_name nm) = Some d" "j = to_json d" and
    adm: "map_option organization (find_one_admin s' i) =
       map_option (\<lambda>a. normalize_name nm) (find_one_admin s i)"
    by (elim exE conjE) (rule that)
  with assms(4) have "org' = org" by simp
  with orgs' have orgs: "organizations s' =
       update_first (\<lambda>d. org_oid d = org_oid org)
         (\<lambda>d. d\<lparr>organization_name := normalize_name nm,
                collection_name := ''org_'' @ normalize_name nm\<rparr>) (organizations s)"
    by simp
  from free have nB: "\<forall>d\<in>set (organizations s). organization_name d \<noteq> normalize_name nm"
    by (simp add: find_one_org_None)
  from assms(4) have fA: "find (\<lambda>d. organization_name d = caller_org_id ca) (organizations s) = Some org"
    by (simp add: find_one_org_def)
  from find_after_rename[OF _ _ fA nB assms(6), of "''org_'' @ normalize_name nm"] assms(1,2)
  have B: "find_one_org s' (normalize_name nm) =
      Some (org\<lparr>organization_name := normalize_name nm,
                collection_name := ''org_'' @ normalize_name nm\<rparr>)"
    and A: "find_one_org s' (caller_org_id ca) = None"
    by (simp_all add: find_one_org_def orgs unique_names_def unique_org_oids_def)
  from find_one_org_Some[OF assms(4)] assms(3)
  have norm: "normalize_name (caller_org_id ca) = caller_org_id ca"
    by (auto simp: normalized_names_def list_all_iff)
  from A norm have "get_org (caller_org_id ca) s' = Inl (HTTPException 404 ''Organization not found'')"
    by (simp add: get_org_def)
  moreover from B have "get_org (normalize_name nm) s' =
       Inr (to_json (org\<lparr>organization_name := normalize_name nm,
                         collection_name := ''org_'' @ normalize_name nm\<rparr>))"
    by (simp add: get_org_def normalize_name_idem)
  moreover from B d have "j = to_json (org\<lparr>organization_name := normalize_name nm,
                     collection_name := ''org_'' @ normalize_name nm\<rparr>)" by simp
  ultimately show ?thesis using i adm by simp
qed

theorem rename_consistency_witness:
  "get_org ''testorg'' (snd (update_org spec_env (rename_to ''TestOrg2'') caller1 state2)) =
     Inl (HTTPException 404 ''Organization not found'') \<and>
   get_org ''testorg2'' (snd (update_org spec_env (rename_to ''TestOrg2'') caller1 state2)) =
     Inr \<lparr>json_id = ''000000000000000000000002'', json_organization_name = ''testorg2'',
            json_collection_name = ''org_testorg2'',
            json_admin_id = ''000000000000000000000001'', json_created_at = 100\<rparr> \<and>
   map_option organization
     (find_one_admin (snd (update_org spec_env (rename_to ''TestOrg2'') caller1 state2)) 1) =
     Some ''testorg2''"
proof -
  have nm: "update_organization_name (rename_to ''TestOrg2'') = Some ''TestOrg2''"
    by (simp add: rename_to_def)
  have n: "normalize_name ''TestOrg2'' = ''testorg2''" by code_simp
  have ne: "normalize_name ''TestOrg2'' \<noteq> caller_org_id caller1" by code_simp
  have j: "to_json (\<lparr>org_oid = 2, organization_name = ''testorg'',
        collection_name = ''org_testorg'', admin_id = ''000000000000000000000001'',
        created_at = 100\<rparr>\<lparr>organization_name := ''testorg2'',
        collection_name := ''org_'' @ ''testorg2''\<rparr>) =
     \<lparr>json_id = ''000000000000000000000002'', json_organization_name = ''testorg2'',
            json_collection_name = ''org_testorg2'',
            json_admin_id = ''000000000000000000000001'', json_created_at = 100\<rparr>"
    by code_simp
  show ?thesis
    using rename_consistency [OF state2_consistent(1,2,4) caller1_facts(1) nm ne rename_run]
      caller1_facts(2,3,4) n j
    by auto
qed

text \<open>
  Claim C2. A delete call whose caller administers another organization than the
  normalized target name fails with \<^verbatim>\<open>403 Forbidden\<close> in every store, whether or
  not the target exists there, and leaves the store as it was: the authorization check
  comes before the lookup.
\<close>

theorem delete_org_forbidden:
  "caller_org_id ca \<noteq> normalize_name name \<Longrightarrow>
   delete_org E name ca s =
     (Inl (HTTPException 403 ''You are not authorized to delete this organization''), s)"
  by (simp add: delete_org_def)

theorem delete_org_forbidden_witness:
  "delete_org spec_env ''Other'' caller1 state2 =
     (Inl (HTTPException 403 ''You are not authorized to delete this organization''), state2) \<and>
   delete_org spec_env ''nothere'' caller1 state2 =
     (Inl (HTTPException 403 ''You are not authorized to delete this organization''), state2) \<and>
   get_org ''Other'' state2 \<noteq> Inl (HTTPException 404 ''Organization not found'') \<and>
   get_org ''nothere'' state2 = Inl (HTTPException 404 ''Organization not found'')"
proof -
  have a: "caller_org_id caller1 \<noteq> normalize_name ''Other''" by code_simp
  have b: "caller_org_id caller1 \<noteq> normalize_name ''nothere''" by code_simp
  have c: "get_org ''Other'' state2 \<noteq> Inl (HTTPException 404 ''Organization not found'')"
    by code_simp
  have d: "get_org ''nothere'' state2 = Inl (HTTPException 404 ''Organization not found'')"
    by code_simp
  show ?thesis
    using delete_org_forbidden [OF a, of spec_env state2]
      delete_org_forbidden [OF b, of spec_env state2] c d by simp
qed

text \<open>
  Claim C3. In a store that holds an organization whose name is the normalized name of
  the payload, \<^verbatim>\<open>create_org\<close> fails with \<^verbatim>\<open>400 "Organization already exists"\<close>;
  and after a create call that succeeded, a second create call whose name has the same
  normalized form fails in that way.
\<close>

theorem create_org_duplicate_conflict:
  "((\<exists>d \<in> set (organizations s).
       organization_name d = normalize_name (create_organization_name p)) \<longrightarrow>
      create_org E g p s = (Inl (HTTPException 400 ''Organization already exists''), s)) \<and>
   (create_org E g p s = (Inr out, s1) \<and>
    normalize_name (create_organization_name p2) = normalize_name (create_organization_name p) \<longrightarrow>
      create_org E g2 p2 s1 = (Inl (HTTPException 400 ''Organization already exists''), s1))"
proof (intro conjI impI)
  assume "\<exists>d \<in> set (organizations s).
    organization_name d = normalize_name (create_organization_name p)"
  then obtain d where "find_one_org s (normalize_name (create_organization_name p)) = Some d"
    using find_one_org_None[of s "normalize_name (create_organization_name p)"] by fastforce
  then show "create_org E g p s = (Inl (HTTPException 400 ''Organization already exists''), s)"
    by (rule create_org_conflict)
next
  assume a: "create_org E g p s = (Inr out, s1) \<and>
    normalize_name (create_organization_name p2) = normalize_name (create_organization_name p)"
  then have "find_one_org s1 (normalize_name (create_organization_name p2)) \<noteq> None"
    using create_org_result[of E g p s out s1] by (auto simp: find_one_org_None)
  then show "create_org E g2 p2 s1 =
      (Inl (HTTPException 400 ''Organization already exists''), s1)"
    using create_org_conflict by blast
qed

theorem create_org_duplicate_conflict_witness:
  "create_org spec_env gen2 (testorg\<lparr>create_organization_name := '' TESTORG ''\<rparr>) state1 =
     (Inl (HTTPException 400 ''Organization already exists''), state1)"
proof -
  have "normalize_name
      (create_organization_name (testorg\<lparr>create_organization_name := '' TESTORG ''\<rparr>)) =
     normalize_name (create_organization_name testorg)"
    by code_simp
  with create_run1 show ?thesis
    using create_org_duplicate_conflict
      [of empty_state testorg spec_env gen1 _ state1
        "testorg\<lparr>create_organization_name := '' TESTORG ''\<rparr>" gen2]
    by blast
qed

text \<open>
  Claim C4. If every record of the store has the collection name \<^verbatim>\<open>"org_"\<close> followed
  by its organization name, this still holds after \<^verbatim>\<open>create_org\<close>, \<^verbatim>\<open>update_org\<close> and
  \<^verbatim>\<open>delete_org\<close>, whatever their outcome. In any store, the record found under the
  name after a successful create, and under the new name after a successful rename, has
  the derived collection name, and so has the response. \<^verbatim>\<open>delete_org\<close> adds no record
  and changes none, and \<^verbatim>\<open>get_org\<close> returns no store at all.
\<close>

theorem derived_naming_maintained:
  "(derived_naming s \<longrightarrow>
      derived_naming (snd (create_org E g p s)) \<and>
      derived_naming (snd (update_org E pu ca s)) \<and>
      derived_naming (snd (delete_org E n ca s))) \<and>
   (create_org E g p s = (Inr out, s1) \<longrightarrow>
      out_collection_name out = ''org_'' @ out_organization_name out \<and>
      (\<exists>d. find_one_org s1 (normalize_name (create_organization_name p)) = Some d \<and>
           collection_name d = ''org_'' @ normalize_name (create_organization_name p))) \<and>
   (update_org E pu ca s = (Inr j, s2) \<and> update_organization_name pu = Some nm \<and>
    normalize_name nm \<noteq> caller_org_id ca \<longrightarrow>
      json_organization_name j = normalize_name nm \<and>
      json_collection_name j = ''org_'' @ normalize_name nm \<and>
      (\<exists>d. find_one_org s2 (normalize_name nm) = Some d \<and>
           collection_name d = ''org_'' @ normalize_name nm)) \<and>
   set (organizations (snd (delete_org E n ca s))) \<subseteq> set (organizations s)"
proof (intro conjI impI)
  assume d: "derived_naming s"
  show "derived_naming (snd (create_org E g p s))" using d by (rule derived_naming_create)
  show "derived_naming (snd (update_org E pu ca s))" using d by (rule derived_naming_update)
  show "derived_naming (snd (delete_org E n ca s))" using d by (rule derived_naming_delete)
next
  assume c: "create_org E g p s = (Inr out, s1)"
  note cr = create_org_result[OF c]
  from cr show "out_collection_name out = ''org_'' @ out_organization_name out" by simp
  from cr have "find (\<lambda>d. organization_name d = normalize_name (create_organization_name p))
      (organizations s) = None" by (simp add: find_one_org_def)
  with cr have "find_one_org s1 (normalize_name (create_organization_name p)) =
     Some \<lparr>org_oid = new_org_oid g,
       organization_name = normalize_name (create_organization_name p),
       collection_name = ''org_'' @ normalize_name (create_organization_name p),
       admin_id = str_oid (new_admin_oid g),
       created_at = utcnow g\<rparr>"
    by (simp add: find_one_org_def find_append_None)
  then show "\<exists>d. find_one_org s1 (normalize_name (create_organization_name p)) = Some d \<and>
           collection_name d = ''org_'' @ normalize_name (create_organization_name p)"
    by simp
next
  assume u: "update_org E pu ca s = (Inr j, s2) \<and> update_organization_name pu = Some nm \<and>
    normalize_name nm \<noteq> caller_org_id ca"
  then have run: "update_org E pu ca s = (Inr j, s2)"
    and nm: "update_organization_name pu = Some nm"
    and ne: "normalize_name nm \<noteq> caller_org_id ca" by simp_all
  from update_org_renamed[OF run nm ne] obtain org i d where
    "find_one_org s (caller_org_id ca) = Some org" and
    free: "find_one_org s (normalize_name nm) = None" and
    "ObjectId (caller_admin_id ca) = Inr i" and
    orgs: "organizations s2 =
       update_first (\<lambda>d. org_oid d = org_oid org)
         (\<lambda>d. d\<lparr>organization_name := normalize_name nm,
                collection_name := ''org_'' @ normalize_name nm\<rparr>) (organizations s)" and
    d: "find_one_org s2 (normalize_name nm) = Some d" "j = to_json d" and
    "map_option organization (find_one_admin s2 i) =
       map_option (\<lambda>a. normalize_name nm) (find_one_admin s i)"
    by (elim exE conjE) (rule that)
  from free have "\<forall>d\<in>set (organizations s). organization_name d \<noteq> normalize_name nm"
    by (simp add: find_one_org_None)
  from find_renamed_collection[OF this] d(1) orgs
  have c: "collection_name d = ''org_'' @ normalize_name nm"
    by (simp add: find_one_org_def)
  from find_one_org_Some[OF d(1)] have n: "organization_name d = normalize_name nm" by simp
  from d(2) n show "json_organization_name j = normalize_name nm" by (simp add: to_json_def)
  from d(2) c show "json_collection_name j = ''org_'' @ normalize_name nm"
    by (simp add: to_json_def)
  from d(1) c show "\<exists>d. find_one_org s2 (normalize_name nm) = Some d \<and>
           collection_name d = ''org_'' @ normalize_name nm" by simp
next
  show "set (organizations (snd (delete_org E n ca s))) \<subseteq> set (organizations s)"
    using delete_org_organizations[of E n ca s]
      set_delete_first[of "\<lambda>d. organization_name d = normalize_name n" "organizations s"]
    by (elim disjE) simp_all
qed

theorem derived_naming_maintained_witness:
  "derived_naming (snd (create_org spec_env gen2 other_org state1)) \<and>
   derived_naming (snd (update_org spec_env (rename_to ''TestOrg2'') caller1 state2)) \<and>
   derived_naming (snd (delete_org spec_env ''testorg'' caller1 state2)) \<and>
   (\<exists>d. find_one_org state1 (normalize_name (create_organization_name testorg)) = Some d \<and>
        collection_name d = ''org_'' @ normalize_name (create_organization_name testorg)) \<and>
   (\<exists>d. find_one_org (snd (update_org spec_env (rename_to ''TestOrg2'') caller1 state2))
          (normalize_name ''TestOrg2'') = Some d \<and>
        collection_name d = ''org_'' @ normalize_name ''TestOrg2'')"
proof -
  have d1: "derived_naming state1" by code_simp
  have nm: "update_organization_name (rename_to ''TestOrg2'') = Some ''TestOrg2''"
    by (simp add: rename_to_def)
  have ne: "normalize_name ''TestOrg2'' \<noteq> caller_org_id caller1" by code_simp
  note a = derived_naming_maintained
    [of state1 spec_env gen2 other_org _ _ _ _ _ _ _ _, THEN conjunct1, rule_format, OF d1]
  note b = derived_naming_maintained
    [of state2 spec_env _ _ "rename_to ''TestOrg2''" caller1 "''testorg''" _ _ _
      "snd (update_org spec_env (rename_to ''TestOrg2'') caller1 state2)" "''TestOrg2''",
      THEN conjunct1, rule_format, OF state2_consistent(5)]
  note c = derived_naming_maintained
    [of empty_state spec_env gen1 testorg _ _ _ _ state1,
      THEN conjunct2, THEN conjunct1, rule_format, OF create_run1]
  note d = derived_naming_maintained
    [of state2 spec_env _ _ "rename_to ''TestOrg2''" caller1 _ _ _ _
      "snd (update_org spec_env (rename_to ''TestOrg2'') caller1 state2)" "''TestOrg2''",
      THEN conjunct2, THEN conjunct2, THEN conjunct1, rule_format, OF conjI[OF rename_run conjI[OF nm ne]]]
  from a b c d show ?thesis by (simp add: state2_def)
qed

text \<open>
  Claim C5. Normalization is idempotent, it maps \<^verbatim>\<open>"  Acme "\<close>, \<^verbatim>\<open>"ACME"\<close> and
  \<^verbatim>\<open>"acme"\<close> to the same key, and each of create, get, update (its rename target) and
  delete gives the same outcome on two names that have the same normalized form.
\<close>

theorem handlers_use_normalized_name:
  "normalize_name (normalize_name n) = normalize_name n \<and>
   normalize_name ''  Acme '' = ''acme'' \<and> normalize_name ''ACME'' = ''acme'' \<and>
   normalize_name ''acme'' = ''acme'' \<and>
   (normalize_name n1 = normalize_name n2 \<longrightarrow>
      create_org E g (p\<lparr>create_organization_name := n1\<rparr>) s =
        create_org E g (p\<lparr>create_organization_name := n2\<rparr>) s \<and>
      get_org n1 s = get_org n2 s \<and>
      update_org E (pu\<lparr>update_organization_name := Some n1\<rparr>) ca s =
        update_org E (pu\<lparr>update_organization_name := Some n2\<rparr>) ca s \<and>
      delete_org E n1 ca s = delete_org E n2 ca s)"
proof (intro conjI impI)
  show "normalize_name (normalize_name n) = normalize_name n"
    by (rule normalize_name_idem)
  show "normalize_name ''  Acme '' = ''acme''" "normalize_name ''ACME'' = ''acme''"
    "normalize_name ''acme'' = ''acme''"
    by (rule normalize_examples)+
  assume h: "normalize_name n1 = normalize_name n2"
  show "create_org E g (p\<lparr>create_organization_name := n1\<rparr>) s =
        create_org E g (p\<lparr>create_organization_name := n2\<rparr>) s"
    using h by (rule create_org_cong)
  show "get_org n1 s = get_org n2 s"
    using h by (rule get_org_cong)
  show "update_org E (pu\<lparr>update_organization_name := Some n1\<rparr>) ca s =
        update_org E (pu\<lparr>update_organization_name := Some n2\<rparr>) ca s"
    using h by (rule update_org_cong)
  show "delete_org E n1 ca s = delete_org E n2 ca s"
    using h by (rule delete_org_cong)
qed

theorem handlers_use_normalized_name_witness:
  "create_org spec_env gen1 (testorg\<lparr>create_organization_name := ''  Acme ''\<rparr>) empty_state =
     create_org spec_env gen1 (testorg\<lparr>create_organization_name := ''acme''\<rparr>) empty_state \<and>
   get_org ''  Acme '' state2 = get_org ''acme'' state2 \<and>
   update_org spec_env
       ((rename_to ''x'')\<lparr>update_organization_name := Some ''  Acme ''\<rparr>) caller1 state2 =
     update_org spec_env
       ((rename_to ''x'')\<lparr>update_organization_name := Some ''acme''\<rparr>) caller1 state2 \<and>
   delete_org spec_env ''  Acme '' caller1 state2 = delete_org spec_env ''acme'' caller1 state2 \<and>
   fst (update_org spec_env
       ((rename_to ''x'')\<lparr>update_organization_name := Some ''  Acme ''\<rparr>) caller1 state2) =
     Inr \<lparr>json_id = ''000000000000000000000002'', json_organization_name = ''acme'',
          json_collection_name = ''org_acme'', json_admin_id = ''000000000000000000000001'',
          json_created_at = 100\<rparr>"
proof -
  have a: "normalize_name ''  Acme '' = normalize_name ''acme''" by code_simp
  have b: "fst (update_org spec_env
       ((rename_to ''x'')\<lparr>update_organization_name := Some ''  Acme ''\<rparr>) caller1 state2) =
     Inr \<lparr>json_id = ''000000000000000000000002'', json_organization_name = ''acme'',
          json_collection_name = ''org_acme'', json_admin_id = ''000000000000000000000001'',
          json_created_at = 100\<rparr>" by code_simp
  show ?thesis
    using b handlers_use_normalized_name
      [of _ "''  Acme ''" "''acme''" spec_env gen1 testorg empty_state]
      handlers_use_normalized_name
      [of _ "''  Acme ''" "''acme''" spec_env _ _ state2 "rename_to ''x''" caller1] a
    by simp
qed

text \<open>
  Claim C6. An update whose payload name normalizes to the caller's current name and
  which carries a non-empty password leaves the organization records and the tenant
  collections as they were, whatever its outcome; of the admin records it changes at
  most the one with the caller's \<^verbatim>\<open>admin_id\<close>, and there only \<^verbatim>\<open>email\<close> and
  \<^verbatim>\<open>password\<close>. When it succeeds, it returns the caller's organization record
  unchanged, and the caller's admin record has the hash of the new password, and the
  new email if a non-empty one was supplied.
\<close>

theorem credential_only_update:
  "update_organization_name pu = Some nm \<Longrightarrow> normalize_name nm = caller_org_id ca \<Longrightarrow>
   update_password pu = Some pw \<Longrightarrow> pw \<noteq> [] \<Longrightarrow> update_org E pu ca s = (r, s') \<Longrightarrow>
   organizations s' = organizations s \<and> tenants s' = tenants s \<and>
   map fixed_fields (admins s') = map fixed_fields (admins s) \<and>
   (\<forall>i. ObjectId (caller_admin_id ca) = Inr i \<longrightarrow>
      filter (\<lambda>a. admin_oid a \<noteq> i) (admins s') = filter (\<lambda>a. admin_oid a \<noteq> i) (admins s)) \<and>
   (\<forall>e. ObjectId (caller_admin_id ca) = Inl e \<longrightarrow> admins s' = admins s) \<and>
   (\<forall>j. r = Inr j \<longrightarrow>
      Some j = map_option to_json (find_one_org s (caller_org_id ca)) \<and>
      (\<exists>i. ObjectId (caller_admin_id ca) = Inr i \<and>
         find_one_admin s' i =
           map_option (\<lambda>a. a\<lparr>email := new_email pu a, password := hash_password E pw\<rparr>)
             (find_one_admin s i)))"
proof -
  assume nm: "update_organization_name pu = Some nm"
    and same: "normalize_name nm = caller_org_id ca"
    and pw: "update_password pu = Some pw" "pw \<noteq> []"
    and run: "update_org E pu ca s = (r, s')"
  from update_org_steps[OF run] nm consider
    (unchanged) "s' = s" "\<forall>j. r \<noteq> Inr j"
  | (steps) org r1 s1 where "find_one_org s (caller_org_id ca) = Some org"
      "handle_rename E ca org (normalize_name nm) s = (r1, s1)"
      "(\<exists>e. r1 = Inl e \<and> r = Inl e \<and> s' = s1) \<or>
       (r1 = Inr (normalize_name nm) \<and>
        (\<exists>r2. handle_credentials E ca pu s1 = (r2, s') \<and>
          ((\<exists>e. r2 = Inl e \<and> r = Inl e) \<or>
           (r2 = Inr () \<and> return_updated (normalize_name nm) s' = (r, s')))))"
    by auto
  then show ?thesis
  proof cases
    case unchanged
    then show ?thesis by simp
  next
    case steps
    from handle_rename_cases[OF steps(2)] same
    have r1: "r1 = Inr (normalize_name nm)" "s1 = s" by auto
    with steps(3) obtain r2 where
      cred: "handle_credentials E ca pu s = (r2, s')" and
      fin: "(\<exists>e. r2 = Inl e \<and> r = Inl e) \<or>
           (r2 = Inr () \<and> return_updated (normalize_name nm) s' = (r, s'))"
      by auto
    note fr = handle_credentials_frame[OF cred]
    have "Some j = map_option to_json (find_one_org s (caller_org_id ca)) \<and>
      (\<exists>i. ObjectId (caller_admin_id ca) = Inr i \<and>
         find_one_admin s' i =
           map_option (\<lambda>a. a\<lparr>email := new_email pu a, password := hash_password E pw\<rparr>)
             (find_one_admin s i))" if j: "r = Inr j" for j
    proof -
      from fin j have ok: "r2 = Inr ()" "return_updated (normalize_name nm) s' = (Inr j, s')"
        by auto
      from return_updated_cases[OF ok(2)] obtain d where
        "find_one_org s' (normalize_name nm) = Some d" "j = to_json d" by auto
      with fr same have "Some j = map_option to_json (find_one_org s (caller_org_id ca))"
        by (simp add: find_one_org_organizations[of s' s])
      moreover from cred ok(1) have "handle_credentials E ca pu s = (Inr (), s')" by simp
      note handle_credentials_caller[OF this pw]
      ultimately show ?thesis by simp
    qed
    with fr show ?thesis by blast
  qed
qed

theorem credential_only_update_witness:
  "organizations (snd (update_org spec_env (new_password ''TESTORG'' ''newpw'') caller1 state2)) =
     organizations state2 \<and>
   tenants (snd (update_org spec_env (new_password ''TESTORG'' ''newpw'') caller1 state2)) =
     tenants state2 \<and>
   map fixed_fields
     (admins (snd (update_org spec_env (new_password ''TESTORG'' ''newpw'') caller1 state2))) =
     map fixed_fields (admins state2) \<and>
   filter (\<lambda>a. admin_oid a \<noteq> 1)
     (admins (snd (update_org spec_env (new_password ''TESTORG'' ''newpw'') caller1 state2))) =
     filter (\<lambda>a. admin_oid a \<noteq> 1) (admins state2) \<and>
   find_one_admin (snd (update_org spec_env (new_password ''TESTORG'' ''newpw'') caller1 state2)) 1 =
     Some \<lparr>admin_oid = 1, email = ''a@x.com'', password = ''hash:newpw'', role = ''admin'',
           organization = ''testorg''\<rparr>"
proof -
  have nm: "update_organization_name (new_password ''TESTORG'' ''newpw'') = Some ''TESTORG''"
    by (simp add: new_password_def)
  have same: "normalize_name ''TESTORG'' = caller_org_id caller1" by code_simp
  have pw: "update_password (new_password ''TESTORG'' ''newpw'') = Some ''newpw''"
    "''newpw'' \<noteq> []"
    by (simp_all add: new_password_def)
  have e: "new_email (new_password ''TESTORG'' ''newpw'')
      \<lparr>admin_oid = 1, email = ''a@x.com'', password = ''hash:pw1'', role = ''admin'',
           organization = ''testorg''\<rparr> = ''a@x.com''"
    "hash_password spec_env ''newpw'' = ''hash:newpw''"
    by (simp_all add: new_email_def new_password_def spec_env_def)
  show ?thesis
    using credential_only_update [OF nm same pw password_run] caller1_facts(2,3) e
    by auto
qed

text \<open>
  Claim C7 says that an update whose payload has no \<^verbatim>\<open>organization_name\<close> completes
  and returns the record. The handler calls \<^verbatim>\<open>strip\<close> on the field without a test:
  on the store of the concrete run, the caller of the first organization sending only
  a new password gets an \<^verbatim>\<open>AttributeError\<close>, and the password is not changed.
\<close>

theorem update_org_absent_name:
  "update_org spec_env (password_only ''newpw'') caller1 state2 = (Inl AttributeError, state2)"
  by code_simp

text \<open>
  Claim C8. A successful create appends one admin record whose \<^verbatim>\<open>password\<close> is
  \<^verbatim>\<open>hash_password\<close> of the payload's password; a successful update with a non-empty
  password leaves the hash of that password in the caller's admin record. That hash is
  the only password value among the commands either call sends, and a delete or a
  failed create sends none. Under the Credential Store's contract that the hash of the
  plaintext is not the plaintext, the stored password differs from the plaintext.

  No call writes the plaintext anywhere else. The strings that the two collections
  hold after a create are those they held before, the normalized name, the collection
  name, the admin reference, the email, the role and the hash; after an update they
  are among those they held before, the new name and collection name, the email and
  the hash; a delete adds none. So a plaintext that the store did not hold and that is
  not one of the other request values is not in the store afterwards. And the whole
  outcome of a create or an update, response and store, stays the same when the
  plaintext is replaced by any other and the hash is answered as before: the handlers
  use the plaintext only to hash it.
\<close>

theorem passwords_are_stored_hashed:
  "(create_org E g p s = (Inr out, s1) \<longrightarrow>
      (\<exists>a. admins s1 = admins s @ [a] \<and> admin_oid a = new_admin_oid g \<and>
           password a = hash_password E (create_password p) \<and>
           (hash_contract E (create_password p) \<longrightarrow> password a \<noteq> create_password p)) \<and>
      passwords_written s s1 = [hash_password E (create_password p)] \<and>
      set (stored_strings s1) =
        set (stored_strings s) \<union>
        {normalize_name (create_organization_name p),
         ''org_'' @ normalize_name (create_organization_name p),
         str_oid (new_admin_oid g), create_email p,
         hash_password E (create_password p), ''admin''} \<and>
      (hash_contract E (create_password p) \<and>
       create_password p \<notin>
         set (stored_strings s) \<union>
         {normalize_name (create_organization_name p),
          ''org_'' @ normalize_name (create_organization_name p),
          str_oid (new_admin_oid g), create_email p, ''admin''} \<longrightarrow>
         create_password p \<notin> set (stored_strings s1))) \<and>
   create_org E g p s =
     create_org (E\<lparr>hash_password := \<lambda>x. hash_password E (create_password p)\<rparr>) g
       (p\<lparr>create_password := pw'\<rparr>) s \<and>
   (update_org E pu ca s = (Inr j, s2) \<and> update_password pu = Some pw \<and> pw \<noteq> [] \<longrightarrow>
      (\<exists>i. ObjectId (caller_admin_id ca) = Inr i \<and>
         map_option password (find_one_admin s2 i) =
           map_option (\<lambda>a. hash_password E pw) (find_one_admin s i) \<and>
         (hash_contract E pw \<longrightarrow> map_option password (find_one_admin s2 i) \<noteq> Some pw)) \<and>
      passwords_written s s2 = [hash_password E pw]) \<and>
   (update_password pu = Some pw \<and> pw \<noteq> [] \<and> pw' \<noteq> [] \<longrightarrow>
      update_org E pu ca s =
        update_org (E\<lparr>hash_password := \<lambda>x. hash_password E pw\<rparr>)
          (pu\<lparr>update_password := Some pw'\<rparr>) ca s) \<and>
   set (stored_strings (snd (update_org E pu ca s))) \<subseteq>
     set (stored_strings s) \<union>
     (case update_organization_name pu of
        None \<Rightarrow> {} | Some nm \<Rightarrow> {normalize_name nm, ''org_'' @ normalize_name nm}) \<union>
     (case update_email pu of None \<Rightarrow> {} | Some e \<Rightarrow> {e}) \<union>
     (case update_password pu of None \<Rightarrow> {} | Some pw \<Rightarrow> {hash_password E pw}) \<and>
   (update_password pu = Some pw \<and> hash_contract E pw \<and>
    pw \<notin>
      set (stored_strings s) \<union>
      (case update_organization_name pu of
         None \<Rightarrow> {} | Some nm \<Rightarrow> {normalize_name nm, ''org_'' @ normalize_name nm}) \<union>
      (case update_email pu of None \<Rightarrow> {} | Some e \<Rightarrow> {e}) \<longrightarrow>
      pw \<notin> set (stored_strings (snd (update_org E pu ca s)))) \<and>
   (passwords_written s (snd (update_org E pu ca s)) = [] \<or>
    (\<exists>pw. update_password pu = Some pw \<and> pw \<noteq> [] \<and>
       passwords_written s (snd (update_org E pu ca s)) = [hash_password E pw])) \<and>
   passwords_written s (snd (delete_org E n ca s)) = [] \<and>
   set (stored_strings (snd (delete_org E n ca s))) \<subseteq> set (stored_strings s) \<and>
   (\<forall>e. fst (create_org E g p s) = Inl e \<longrightarrow>
      passwords_written s (snd (create_org E g p s)) = [] \<and> snd (create_org E g p s) = s)"
proof (intro conjI impI allI)
  assume c: "create_org E g p s = (Inr out, s1)"
  note h = passwords_written_hashed
    [of E g p s out s1, THEN conjunct1, rule_format, OF c]
  from h obtain a where a: "admins s1 = admins s @ [a]" "admin_oid a = new_admin_oid g"
    "password a = hash_password E (create_password p)"
    by (elim conjE exE)
  show "\<exists>a. admins s1 = admins s @ [a] \<and> admin_oid a = new_admin_oid g \<and>
           password a = hash_password E (create_password p) \<and>
           (hash_contract E (create_password p) \<longrightarrow> password a \<noteq> create_password p)"
    by (rule exI[of _ a]) (simp add: a hash_contract_def)
  from h show "passwords_written s s1 = [hash_password E (create_password p)]"
    by (rule conjunct2)
  show eq: "set (stored_strings s1) =
        set (stored_strings s) \<union>
        {normalize_name (create_organization_name p),
         ''org_'' @ normalize_name (create_organization_name p),
         str_oid (new_admin_oid g), create_email p,
         hash_password E (create_password p), ''admin''}"
    by (rule create_org_strings[OF c])
  assume "hash_contract E (create_password p) \<and>
       create_password p \<notin>
         set (stored_strings s) \<union>
         {normalize_name (create_organization_name p),
          ''org_'' @ normalize_name (create_organization_name p),
          str_oid (new_admin_oid g), create_email p, ''admin''}"
  then show "create_password p \<notin> set (stored_strings s1)"
    unfolding eq hash_contract_def by auto
next
  show "create_org E g p s =
     create_org (E\<lparr>hash_password := \<lambda>x. hash_password E (create_password p)\<rparr>) g
       (p\<lparr>create_password := pw'\<rparr>) s"
    by (rule create_org_password_flow)
next
  assume u: "update_org E pu ca s = (Inr j, s2) \<and> update_password pu = Some pw \<and> pw \<noteq> []"
  note h = passwords_written_hashed
    [of E _ _ s _ _ pu ca j s2 pw, THEN conjunct2, THEN conjunct1, rule_format, OF u]
  from h obtain i where i: "ObjectId (caller_admin_id ca) = Inr i"
    "map_option password (find_one_admin s2 i) =
           map_option (\<lambda>a. hash_password E pw) (find_one_admin s i)"
    by (elim conjE exE)
  have "map_option password (find_one_admin s2 i) \<noteq> Some pw" if "hash_contract E pw"
    using that unfolding i(2) hash_contract_def by (cases "find_one_admin s i") simp_all
  with i show "\<exists>i. ObjectId (caller_admin_id ca) = Inr i \<and>
         map_option password (find_one_admin s2 i) =
           map_option (\<lambda>a. hash_password E pw) (find_one_admin s i) \<and>
         (hash_contract E pw \<longrightarrow> map_option password (find_one_admin s2 i) \<noteq> Some pw)"
    by (intro exI[of _ i]) simp
  from h show "passwords_written s s2 = [hash_password E pw]" by (rule conjunct2)
next
  assume "update_password pu = Some pw \<and> pw \<noteq> [] \<and> pw' \<noteq> []"
  then show "update_org E pu ca s =
        update_org (E\<lparr>hash_password := \<lambda>x. hash_password E pw\<rparr>)
          (pu\<lparr>update_password := Some pw'\<rparr>) ca s"
    by (intro update_org_password_flow) simp_all
next
  obtain r s' where run: "update_org E pu ca s = (r, s')" by (cases "update_org E pu ca s")
  note sub = update_org_strings[OF run]
  show "set (stored_strings (snd (update_org E pu ca s))) \<subseteq>
     set (stored_strings s) \<union>
     (case update_organization_name pu of
        None \<Rightarrow> {} | Some nm \<Rightarrow> {normalize_name nm, ''org_'' @ normalize_name nm}) \<union>
     (case update_email pu of None \<Rightarrow> {} | Some e \<Rightarrow> {e}) \<union>
     (case update_password pu of None \<Rightarrow> {} | Some pw \<Rightarrow> {hash_password E pw})"
    unfolding run snd_conv by (rule sub)
  assume a: "update_password pu = Some pw \<and> hash_contract E pw \<and>
    pw \<notin>
      set (stored_strings s) \<union>
      (case update_organization_name pu of
         None \<Rightarrow> {} | Some nm \<Rightarrow> {normalize_name nm, ''org_'' @ normalize_name nm}) \<union>
      (case update_email pu of None \<Rightarrow> {} | Some e \<Rightarrow> {e})"
  then have pw: "update_password pu = Some pw" and hc: "hash_password E pw \<noteq> pw"
    and ni: "pw \<notin>
      set (stored_strings s) \<union>
      (case update_organization_name pu of
         None \<Rightarrow> {} | Some nm \<Rightarrow> {normalize_name nm, ''org_'' @ normalize_name nm}) \<union>
      (case update_email pu of None \<Rightarrow> {} | Some e \<Rightarrow> {e})"
    by (simp_all add: hash_contract_def)
  have "pw \<notin> set (stored_strings s')"
  proof
    assume "pw \<in> set (stored_strings s')"
    with sub have "pw \<in> set (stored_strings s) \<union>
     (case update_organization_name pu of
        None \<Rightarrow> {} | Some nm \<Rightarrow> {normalize_name nm, ''org_'' @ normalize_name nm}) \<union>
     (case update_email pu of None \<Rightarrow> {} | Some e \<Rightarrow> {e}) \<union>
     (case update_password pu of None \<Rightarrow> {} | Some pw \<Rightarrow> {hash_password E pw})"
      by (rule subsetD)
    with ni have "pw \<in> (case update_password pu of None \<Rightarrow> {} | Some pw \<Rightarrow> {hash_password E pw})"
      by simp
    with pw hc show False by simp
  qed
  then show "pw \<notin> set (stored_strings (snd (update_org E pu ca s)))" by (simp add: run)
next
  show "passwords_written s (snd (update_org E pu ca s)) = [] \<or>
    (\<exists>pw. update_password pu = Some pw \<and> pw \<noteq> [] \<and>
       passwords_written s (snd (update_org E pu ca s)) = [hash_password E pw])"
    by (rule passwords_written_hashed
        [of E g p s out s1 pu ca j s2 pw n, THEN conjunct2, THEN conjunct2, THEN conjunct1])
next
  show "passwords_written s (snd (delete_org E n ca s)) = []"
    by (rule passwords_written_hashed
        [of E g p s out s1 pu ca j s2 pw n,
          THEN conjunct2, THEN conjunct2, THEN conjunct2, THEN conjunct1])
next
  show "set (stored_strings (snd (delete_org E n ca s))) \<subseteq> set (stored_strings s)"
    by (rule delete_org_strings)
next
  fix e assume f: "fst (create_org E g p s) = Inl e"
  show "passwords_written s (snd (create_org E g p s)) = []"
    using passwords_written_hashed
        [of E g p s out s1 pu ca j s2 pw n,
          THEN conjunct2, THEN conjunct2, THEN conjunct2, THEN conjunct2, rule_format, OF f] .
  from f have "create_org E g p s = (Inl e, snd (create_org E g p s))"
    by (simp add: prod_eq_iff)
  then show "snd (create_org E g p s) = s" by (rule create_org_error_unchanged)
qed

theorem passwords_are_stored_hashed_witness:
  "passwords_written empty_state state1 = [''hash:pw1''] \<and>
   set (stored_strings state1) =
     {''testorg'', ''org_testorg'', ''000000000000000000000001'', ''a@x.com'', ''hash:pw1'',
      ''admin''} \<and>
   ''pw1'' \<notin> set (stored_strings state1) \<and>
   create_org spec_env gen1 testorg empty_state =
     create_org (spec_env\<lparr>hash_password := \<lambda>x. ''hash:pw1''\<rparr>) gen1
       (testorg\<lparr>create_password := ''another''\<rparr>) empty_state \<and>
   passwords_written state2
     (snd (update_org spec_env (new_password ''TESTORG'' ''newpw'') caller1 state2)) =
     [''hash:newpw''] \<and>
   map_option password
     (find_one_admin
       (snd (update_org spec_env (new_password ''TESTORG'' ''newpw'') caller1 state2)) 1) =
     Some ''hash:newpw'' \<and>
   ''newpw'' \<notin>
     set (stored_strings
       (snd (update_org spec_env (new_password ''TESTORG'' ''newpw'') caller1 state2))) \<and>
   update_org spec_env (new_password ''TESTORG'' ''newpw'') caller1 state2 =
     update_org (spec_env\<lparr>hash_password := \<lambda>x. ''hash:newpw''\<rparr>)
       ((new_password ''TESTORG'' ''newpw'')\<lparr>update_password := Some ''another''\<rparr>)
       caller1 state2"
proof -
  have pw: "update_password (new_password ''TESTORG'' ''newpw'') = Some ''newpw''"
    "''newpw'' \<noteq> []" "''another'' \<noteq> []"
    by (simp_all add: new_password_def)
  have h: "hash_password spec_env ''newpw'' = ''hash:newpw''"
    "hash_password spec_env (create_password testorg) = ''hash:pw1''"
    "create_password testorg = ''pw1''"
    by (simp_all add: spec_env_def testorg_def)
  have hc: "hash_contract spec_env (create_password testorg)" "hash_contract spec_env ''newpw''"
    by (simp_all add: hash_contract_def spec_env_def)
  have n1: "create_password testorg \<notin>
         set (stored_strings empty_state) \<union>
         {normalize_name (create_organization_name testorg),
          ''org_'' @ normalize_name (create_organization_name testorg),
          str_oid (new_admin_oid gen1), create_email testorg, ''admin''}"
    by code_simp
  have n2: "''newpw'' \<notin>
      set (stored_strings state2) \<union>
      (case update_organization_name (new_password ''TESTORG'' ''newpw'') of
         None \<Rightarrow> {} | Some nm \<Rightarrow> {normalize_name nm, ''org_'' @ normalize_name nm}) \<union>
      (case update_email (new_password ''TESTORG'' ''newpw'') of None \<Rightarrow> {} | Some e \<Rightarrow> {e})"
    by code_simp
  have v: "set (stored_strings empty_state) \<union>
        {normalize_name (create_organization_name testorg),
         ''org_'' @ normalize_name (create_organization_name testorg),
         str_oid (new_admin_oid gen1), create_email testorg,
         hash_password spec_env (create_password testorg), ''admin''} =
     {''testorg'', ''org_testorg'', ''000000000000000000000001'', ''a@x.com'', ''hash:pw1'',
      ''admin''}"
    by code_simp
  note a = passwords_are_stored_hashed
    [of spec_env gen1 testorg empty_state _ state1,
      THEN conjunct1, rule_format, OF create_run1]
  note a_written = a[THEN conjunct2, THEN conjunct1, unfolded h(2)]
  note a_strings = a[THEN conjunct2, THEN conjunct2, THEN conjunct1, unfolded v]
  note a_absent = a[THEN conjunct2, THEN conjunct2, THEN conjunct2, rule_format,
      OF conjI[OF hc(1) n1], unfolded h(3)]
  note a_flow = passwords_are_stored_hashed
    [of spec_env gen1 testorg empty_state _ _ "''another''",
      THEN conjunct2, THEN conjunct1, unfolded h(2)]
  note b = passwords_are_stored_hashed
    [of spec_env _ _ state2 _ _ _ "new_password ''TESTORG'' ''newpw''" caller1 _
      "snd (update_org spec_env (new_password ''TESTORG'' ''newpw'') caller1 state2)" "''newpw''",
      THEN conjunct2, THEN conjunct2, THEN conjunct1, rule_format,
      OF conjI[OF password_run conjI[OF pw(1,2)]]]
  note b_flow = passwords_are_stored_hashed
    [of spec_env _ _ state2 _ _ "''another''" "new_password ''TESTORG'' ''newpw''" caller1 _ _
      "''newpw''",
      THEN conjunct2, THEN conjunct2, THEN conjunct2, THEN conjunct1, rule_format,
      OF conjI[OF pw(1) conjI[OF pw(2,3)]], unfolded h(1)]
  note b_absent = passwords_are_stored_hashed
    [of spec_env _ _ state2 _ _ _ "new_password ''TESTORG'' ''newpw''" caller1 _ _
      "''newpw''",
      THEN conjunct2, THEN conjunct2, THEN conjunct2, THEN conjunct2, THEN conjunct2,
      THEN conjunct1, rule_format, OF conjI[OF pw(1) conjI[OF hc(2) n2]]]
  from b h(1) caller1_facts(2,3) have b': "passwords_written state2
     (snd (update_org spec_env (new_password ''TESTORG'' ''newpw'') caller1 state2)) =
     [''hash:newpw''] \<and>
   map_option password
     (find_one_admin
       (snd (update_org spec_env (new_password ''TESTORG'' ''newpw'') caller1 state2)) 1) =
     Some ''hash:newpw''"
    by auto
  from a_written a_strings a_absent a_flow b' b_absent b_flow show ?thesis
    by (intro conjI) (simp_all only: simp_thms)
qed

text \<open>
  Claim C9. When the caller administers the normalized target name, \<^verbatim>\<open>delete_org\<close>
  fails with \<^verbatim>\<open>404 "Organization not found"\<close> and an unchanged store if no
  organization has that name. If one has, and its stored \<^verbatim>\<open>admin_id\<close> reads back as
  the identifier \<open>i\<close>, the call returns the status \<^verbatim>\<open>deleted\<close> after sending three
  commands in this order: drop the tenant collection, delete the admin \<open>i\<close>, delete the
  organization record. The admins it leaves are those before without the first one of
  identifier \<open>i\<close>, the organizations those before without the first one of that name,
  all others kept in their order. With unique identifiers and names these are exactly
  the admins of another identifier and the organizations of another name.
\<close>

theorem delete_org_effects:
  "caller_org_id ca = normalize_name name \<Longrightarrow>
   (find_one_org s (normalize_name name) = None \<longrightarrow>
      delete_org E name ca s = (Inl (HTTPException 404 ''Organization not found''), s)) \<and>
   (\<forall>org i. find_one_org s (normalize_name name) = Some org \<and> ObjectId (admin_id org) = Inr i \<longrightarrow>
      fst (delete_org E name ca s) = Inr ''deleted'' \<and>
      journal (snd (delete_org E name ca s)) =
        journal s @ [DropCollection (normalize_name name), DeleteAdmin i,
                     DeleteOrg (normalize_name name)] \<and>
      tenants (snd (delete_org E name ca s)) =
        drop_org_collection E (normalize_name name) (tenants s) \<and>
      admins (snd (delete_org E name ca s)) =
        takeWhile (\<lambda>a. admin_oid a \<noteq> i) (admins s) @
        tl (dropWhile (\<lambda>a. admin_oid a \<noteq> i) (admins s)) \<and>
      organizations (snd (delete_org E name ca s)) =
        takeWhile (\<lambda>d. organization_name d \<noteq> normalize_name name) (organizations s) @
        tl (dropWhile (\<lambda>d. organization_name d \<noteq> normalize_name name) (organizations s)) \<and>
      (unique_admin_oids s \<longrightarrow>
         admins (snd (delete_org E name ca s)) = filter (\<lambda>a. admin_oid a \<noteq> i) (admins s) \<and>
         find_one_admin (snd (delete_org E name ca s)) i = None) \<and>
      (unique_names s \<longrightarrow>
         organizations (snd (delete_org E name ca s)) =
           filter (\<lambda>d. organization_name d \<noteq> normalize_name name) (organizations s) \<and>
         find_one_org (snd (delete_org E name ca s)) (normalize_name name) = None))"
proof (intro conjI impI allI)
  assume "caller_org_id ca = normalize_name name"
    "find_one_org s (normalize_name name) = None"
  then show "delete_org E name ca s = (Inl (HTTPException 404 ''Organization not found''), s)"
    by (rule delete_org_not_found)
next
  fix org i
  assume c: "caller_org_id ca = normalize_name name"
    and h: "find_one_org s (normalize_name name) = Some org \<and> ObjectId (admin_id org) = Inr i"
  define s' where "s' = snd (delete_org E name ca s)"
  from h have run: "delete_org E name ca s =
     (Inr ''deleted'',
      organizations_delete_one (normalize_name name)
        (admins_delete_one i (call_drop_org_collection E (normalize_name name) s)))"
    using delete_org_deleted[OF c, of s org i E] by simp
  have adm: "admins s' = delete_first (\<lambda>a. admin_oid a = i) (admins s)"
    and orgs: "organizations s' =
      delete_first (\<lambda>d. organization_name d = normalize_name name) (organizations s)"
    by (simp_all add: s'_def run store_defs)
  show "fst (delete_org E name ca s) = Inr ''deleted''" by (simp add: run)
  show "journal (snd (delete_org E name ca s)) =
        journal s @ [DropCollection (normalize_name name), DeleteAdmin i,
                     DeleteOrg (normalize_name name)]"
    by (simp add: run store_defs)
  show "tenants (snd (delete_org E name ca s)) =
        drop_org_collection E (normalize_name name) (tenants s)"
    by (simp add: run store_defs)
  show "admins (snd (delete_org E name ca s)) =
        takeWhile (\<lambda>a. admin_oid a \<noteq> i) (admins s) @
        tl (dropWhile (\<lambda>a. admin_oid a \<noteq> i) (admins s))"
    using adm unfolding s'_def by (simp add: delete_first_takeWhile)
  show "organizations (snd (delete_org E name ca s)) =
        takeWhile (\<lambda>d. organization_name d \<noteq> normalize_name name) (organizations s) @
        tl (dropWhile (\<lambda>d. organization_name d \<noteq> normalize_name name) (organizations s))"
    using orgs unfolding s'_def by (simp add: delete_first_takeWhile)
  {
    assume u: "unique_admin_oids s"
    show "admins (snd (delete_org E name ca s)) = filter (\<lambda>a. admin_oid a \<noteq> i) (admins s)"
      using adm u unfolding s'_def unique_admin_oids_def by (simp add: delete_first_filter)
    show "find_one_admin (snd (delete_org E name ca s)) i = None"
      using adm u unfolding s'_def unique_admin_oids_def
      by (simp add: find_one_admin_def find_delete_first_key)
  }
  {
    assume u: "unique_names s"
    show "organizations (snd (delete_org E name ca s)) =
           filter (\<lambda>d. organization_name d \<noteq> normalize_name name) (organizations s)"
      using orgs u unfolding s'_def unique_names_def by (simp add: delete_first_filter)
    show "find_one_org (snd (delete_org E name ca s)) (normalize_name name) = None"
      using orgs u unfolding s'_def unique_names_def
      by (simp add: find_one_org_def find_delete_first_key)
  }
qed

theorem delete_org_effects_witness:
  "delete_org spec_env ''nothere'' (caller1\<lparr>caller_org_id := ''nothere''\<rparr>) state2 =
     (Inl (HTTPException 404 ''Organization not found''), state2) \<and>
   fst (delete_org spec_env '' TestOrg'' caller1 state2) = Inr ''deleted'' \<and>
   journal (snd (delete_org spec_env '' TestOrg'' caller1 state2)) =
     journal state2 @ [DropCollection ''testorg'', DeleteAdmin 1, DeleteOrg ''testorg''] \<and>
   admins (snd (delete_org spec_env '' TestOrg'' caller1 state2)) =
     [\<lparr>admin_oid = 3, email = ''b@x.com'', password = ''hash:pw2'', role = ''admin'',
       organization = ''other''\<rparr>] \<and>
   organizations (snd (delete_org spec_env '' TestOrg'' caller1 state2)) =
     [\<lparr>org_oid = 4, organization_name = ''other'', collection_name = ''org_other'',
       admin_id = ''000000000000000000000003'', created_at = 200\<rparr>] \<and>
   find_one_admin (snd (delete_org spec_env '' TestOrg'' caller1 state2)) 1 = None \<and>
   find_one_org (snd (delete_org spec_env '' TestOrg'' caller1 state2)) ''testorg'' = None \<and>
   find_one_admin state2 1 \<noteq> None \<and> find_one_org state2 ''testorg'' \<noteq> None"
proof -
  have a: "caller_org_id (caller1\<lparr>caller_org_id := ''nothere''\<rparr>) = normalize_name ''nothere''"
    by code_simp
  have b: "find_one_org state2 (normalize_name ''nothere'') = None"
    by code_simp
  have c: "caller_org_id caller1 = normalize_name '' TestOrg''"
    by code_simp
  have d: "find_one_org state2 (normalize_name '' TestOrg'') =
      Some \<lparr>org_oid = 2, organization_name = ''testorg'', collection_name = ''org_testorg'',
            admin_id = ''000000000000000000000001'', created_at = 100\<rparr>"
    by code_simp
  have e: "ObjectId (admin_id \<lparr>org_oid = 2, organization_name = ''testorg'',
            collection_name = ''org_testorg'',
            admin_id = ''000000000000000000000001'', created_at = 100\<rparr>) = Inr 1"
    by code_simp
  have f: "unique_admin_oids state2" "unique_names state2"
    by code_simp+
  have g: "find_one_admin state2 1 \<noteq> None" "find_one_org state2 ''testorg'' \<noteq> None"
    "normalize_name '' TestOrg'' = ''testorg''"
    by code_simp+
  have h: "filter (\<lambda>a. admin_oid a \<noteq> 1) (admins state2) =
     [\<lparr>admin_oid = 3, email = ''b@x.com'', password = ''hash:pw2'', role = ''admin'',
       organization = ''other''\<rparr>]"
    "filter (\<lambda>d. organization_name d \<noteq> ''testorg'') (organizations state2) =
     [\<lparr>org_oid = 4, organization_name = ''other'', collection_name = ''org_other'',
       admin_id = ''000000000000000000000003'', created_at = 200\<rparr>]"
    by code_simp+
  note nf = delete_org_effects [OF a, of state2 spec_env, THEN conjunct1, rule_format, OF b]
  note t = delete_org_effects
    [OF c, of state2 spec_env, THEN conjunct2, rule_format, OF conjI[OF d e]]
  note t_fst = t[THEN conjunct1]
  note t_journal = t[THEN conjunct2, THEN conjunct1, unfolded g(3)]
  note t_admins = t[THEN conjunct2, THEN conjunct2, THEN conjunct2, THEN conjunct2,
      THEN conjunct2, THEN conjunct1, rule_format, OF f(1), unfolded h(1)]
  note t_orgs = t[THEN conjunct2, THEN conjunct2, THEN conjunct2, THEN conjunct2,
      THEN conjunct2, THEN conjunct2, rule_format, OF f(2), unfolded g(3) h(2)]
  show ?thesis
    using nf t_fst t_journal t_admins t_orgs g(1,2) by simp
qed

text \<open>
  Claim C10. When \<^verbatim>\<open>create_org\<close> or \<^verbatim>\<open>update_org\<close> stops with an
  \<^verbatim>\<open>HTTPException\<close>, which for these two handlers are the two name conflicts and the
  \<^verbatim>\<open>404\<close> of update, the store is the one the call started with, its journal
  included: no command was sent before the check failed.
\<close>

theorem conflict_leaves_store_unchanged:
  "(create_org E g p s = (Inl (HTTPException c m), s') \<longrightarrow> s' = s) \<and>
   (update_org E pu ca s = (Inl (HTTPException c' m'), s'') \<longrightarrow> s'' = s)"
  using create_org_error_unchanged update_org_http_unchanged by blast

theorem conflict_leaves_store_unchanged_witness:
  "fst (create_org spec_env gen2 testorg state2) =
     Inl (HTTPException 400 ''Organization already exists'') \<and>
   snd (create_org spec_env gen2 testorg state2) = state2 \<and>
   fst (update_org spec_env (rename_to ''OTHER'') caller1 state2) =
     Inl (HTTPException 400 ''New organization name already exists'') \<and>
   snd (update_org spec_env (rename_to ''OTHER'') caller1 state2) = state2"
proof -
  have a: "fst (create_org spec_env gen2 testorg state2) =
      Inl (HTTPException 400 ''Organization already exists'')"
    by code_simp
  have b: "fst (update_org spec_env (rename_to ''OTHER'') caller1 state2) =
     Inl (HTTPException 400 ''New organization name already exists'')"
    by code_simp
  have a': "create_org spec_env gen2 testorg state2 =
      (Inl (HTTPException 400 ''Organization already exists''),
       snd (create_org spec_env gen2 testorg state2))"
    using a by (simp add: prod_eq_iff)
  have b': "update_org spec_env (rename_to ''OTHER'') caller1 state2 =
      (Inl (HTTPException 400 ''New organization name already exists''),
       snd (update_org spec_env (rename_to ''OTHER'') caller1 state2))"
    using b by (simp add: prod_eq_iff)
  show ?thesis
    using a b conflict_leaves_store_unchanged [THEN conjunct1, rule_format, OF a']
      conflict_leaves_store_unchanged [THEN conjunct2, rule_format, OF b'] by simp
qed

end
